theory Spec2Isabelle
  imports Complex_Main
begin

section \<open>Floating-point values\<close>

text \<open>
  The arrays of the program hold IEEE-754 floats.  A float is modelled by its special
  values and, when finite, by the real number it denotes: the special-value rules
  (propagation of NaN, \<open>inf - inf\<close>, \<open>log 0\<close>, comparisons with NaN) are those of
  IEEE-754, while rounding and overflow of finite results are not modelled.
\<close>

datatype fl = NaN | NegInf | PosInf | Fin real

fun isnan :: "fl \<Rightarrow> bool" where
  "isnan NaN = True"
| "isnan _ = False"

fun isfinite :: "fl \<Rightarrow> bool" where
  "isfinite (Fin _) = True"
| "isfinite _ = False"

fun fl_neg :: "fl \<Rightarrow> fl" where
  "fl_neg NaN = NaN"
| "fl_neg NegInf = PosInf"
| "fl_neg PosInf = NegInf"
| "fl_neg (Fin x) = Fin (- x)"

fun fl_add :: "fl \<Rightarrow> fl \<Rightarrow> fl" where
  "fl_add NaN _ = NaN"
| "fl_add _ NaN = NaN"
| "fl_add PosInf NegInf = NaN"
| "fl_add NegInf PosInf = NaN"
| "fl_add PosInf _ = PosInf"
| "fl_add _ PosInf = PosInf"
| "fl_add NegInf _ = NegInf"
| "fl_add _ NegInf = NegInf"
| "fl_add (Fin x) (Fin y) = Fin (x + y)"

definition fl_sub :: "fl \<Rightarrow> fl \<Rightarrow> fl" where
  "fl_sub a b = fl_add a (fl_neg b)"

fun fl_sign_inf :: "real \<Rightarrow> fl" where
  "fl_sign_inf y = (if y = 0 then NaN else if 0 < y then PosInf else NegInf)"

fun fl_mul :: "fl \<Rightarrow> fl \<Rightarrow> fl" where
  "fl_mul NaN _ = NaN"
| "fl_mul _ NaN = NaN"
| "fl_mul PosInf PosInf = PosInf"
| "fl_mul PosInf NegInf = NegInf"
| "fl_mul NegInf PosInf = NegInf"
| "fl_mul NegInf NegInf = PosInf"
| "fl_mul PosInf (Fin y) = fl_sign_inf y"
| "fl_mul (Fin x) PosInf = fl_sign_inf x"
| "fl_mul NegInf (Fin y) = fl_sign_inf (- y)"
| "fl_mul (Fin x) NegInf = fl_sign_inf (- x)"
| "fl_mul (Fin x) (Fin y) = Fin (x * y)"

text \<open>Comparisons: every comparison with NaN is false.\<close>

fun fl_lt :: "fl \<Rightarrow> fl \<Rightarrow> bool" where
  "fl_lt NaN _ = False"
| "fl_lt _ NaN = False"
| "fl_lt PosInf _ = False"
| "fl_lt _ NegInf = False"
| "fl_lt NegInf _ = True"
| "fl_lt _ PosInf = True"
| "fl_lt (Fin x) (Fin y) = (x < y)"

fun fl_le :: "fl \<Rightarrow> fl \<Rightarrow> bool" where
  "fl_le NaN _ = False"
| "fl_le _ NaN = False"
| "fl_le NegInf _ = True"
| "fl_le _ PosInf = True"
| "fl_le PosInf _ = False"
| "fl_le _ NegInf = False"
| "fl_le (Fin x) (Fin y) = (x \<le> y)"

text \<open>\<open>jnp.maximum\<close> propagates NaN.\<close>

definition fl_maximum :: "fl \<Rightarrow> fl \<Rightarrow> fl" where
  "fl_maximum a b = (if isnan a \<or> isnan b then NaN else if fl_lt a b then b else a)"

fun fl_log :: "fl \<Rightarrow> fl" where
  "fl_log NaN = NaN"
| "fl_log NegInf = NaN"
| "fl_log PosInf = PosInf"
| "fl_log (Fin x) = (if x < 0 then NaN else if x = 0 then NegInf else Fin (ln x))"

fun fl_exp :: "fl \<Rightarrow> fl" where
  "fl_exp NaN = NaN"
| "fl_exp NegInf = Fin 0"
| "fl_exp PosInf = PosInf"
| "fl_exp (Fin x) = Fin (exp x)"

fun fl_sqrt :: "fl \<Rightarrow> fl" where
  "fl_sqrt NaN = NaN"
| "fl_sqrt NegInf = NaN"
| "fl_sqrt PosInf = PosInf"
| "fl_sqrt (Fin x) = (if x < 0 then NaN else Fin (sqrt x))"

text \<open>True division of two integer counts, as in \<open>1. / n\<close>.\<close>

definition fl_div_nat :: "nat \<Rightarrow> nat \<Rightarrow> fl" where
  "fl_div_nat a b =
     (if b = 0 then (if a = 0 then NaN else PosInf) else Fin (real a / real b))"

text \<open>
  \<open>jax.scipy.special.logsumexp\<close> on a rank-one array: the maximum is taken out of
  the exponentials when it is finite.
\<close>

definition fl_sum :: "fl list \<Rightarrow> fl" where
  "fl_sum xs = foldr fl_add xs (Fin 0)"

definition fl_max_list :: "fl list \<Rightarrow> fl" where
  "fl_max_list xs = foldr fl_maximum xs NegInf"

definition logsumexp :: "fl list \<Rightarrow> fl" where
  "logsumexp a =
     (let amax = fl_max_list a;
          amax' = (if isfinite amax then amax else Fin 0)
      in fl_add (fl_log (fl_sum (map (\<lambda>x. fl_exp (fl_sub x amax')) a))) amax')"

section \<open>Errors\<close>

datatype error =
    ValueError string
  | TypeError string
  | KeyError string
  | SamplerDiverged

section \<open>One-dimensional arrays\<close>

text \<open>
  Arrays of rank one are lists of floats.  Element-wise binary operations follow the
  broadcasting rule of \<open>jax.numpy\<close> for rank one: equal lengths, or one side of
  length one.
\<close>

fun broadcast2 :: "(fl \<Rightarrow> fl \<Rightarrow> fl) \<Rightarrow> fl list \<Rightarrow> fl list \<Rightarrow> error + fl list" where
  "broadcast2 f [x] ys = Inr (map (f x) ys)"
| "broadcast2 f xs [y] = Inr (map (\<lambda>x. f x y) xs)"
| "broadcast2 f xs ys =
     (if length xs = length ys then Inr (map2 f xs ys)
      else Inl (TypeError ''incompatible shapes for broadcasting''))"

text \<open>\<open>jnp.reshape(U, shape)\<close>; the data stay in row-major order.\<close>

definition reshape :: "fl list \<Rightarrow> nat list \<Rightarrow> error + fl list" where
  "reshape U shp =
     (if prod_list shp = length U then Inr U
      else Inl (TypeError ''cannot reshape array''))"

text \<open>
  \<open>jnp.argmax\<close> and \<open>jnp.argmin\<close> on a rank-one array: the first index of the
  extremum, a NaN counting as the extremum; an empty array raises.
\<close>

fun argmax_from :: "nat \<Rightarrow> fl \<Rightarrow> nat \<Rightarrow> fl list \<Rightarrow> nat" where
  "argmax_from best b j [] = best"
| "argmax_from best b j (x # xs) =
     (if \<not> isnan b \<and> (isnan x \<or> fl_lt b x) then argmax_from j x (Suc j) xs
      else argmax_from best b (Suc j) xs)"

fun argmax :: "fl list \<Rightarrow> error + nat" where
  "argmax [] = Inl (ValueError ''attempt to get argmax of an empty sequence'')"
| "argmax (x # xs) = Inr (argmax_from 0 x 1 xs)"

fun argmin_from :: "nat \<Rightarrow> fl \<Rightarrow> nat \<Rightarrow> fl list \<Rightarrow> nat" where
  "argmin_from best b j [] = best"
| "argmin_from best b j (x # xs) =
     (if \<not> isnan b \<and> (isnan x \<or> fl_lt x b) then argmin_from j x (Suc j) xs
      else argmin_from best b (Suc j) xs)"

fun argmin :: "fl list \<Rightarrow> error + nat" where
  "argmin [] = Inl (ValueError ''attempt to get argmin of an empty sequence'')"
| "argmin (x # xs) = Inr (argmin_from 0 x 1 xs)"

section \<open>Prior transforms (prior\_transforms/common.py)\<close>

text \<open>
  Modelled from the spec: the base class \<open>PriorTransform\<close> (prior\_chain.py) is the
  PriorVariable of the data model: a name, its own uniform dimensionality, the ordered
  list of parents and the \<open>tracked\<close> flag, in the order of the constructor calls
  \<open>super().__init__(name, U_dims, parents, tracked)\<close> of common.py.
\<close>

datatype PriorTransform =
  PriorTransform (name: string) (U_ndims: nat) (prior_chains: "PriorTransform list")
    (tracked: bool)

text \<open>A Python value given as hyperparameter: a scalar or a rank-one array.\<close>

datatype pyval = PyScalar fl | PyArray "fl list"

fun atleast_1d :: "pyval \<Rightarrow> fl list" where
  "atleast_1d (PyScalar x) = [x]"
| "atleast_1d (PyArray xs) = xs"

record DeltaPrior =
  dp_base :: PriorTransform
  dp_value :: "fl list"

definition DeltaPrior_init :: "string \<Rightarrow> pyval \<Rightarrow> bool \<Rightarrow> DeltaPrior" where
  "DeltaPrior_init nm v trk =
     \<lparr>dp_base = PriorTransform nm 0 [] trk, dp_value = atleast_1d v\<rparr>"

definition DeltaPrior_to_shape :: "DeltaPrior \<Rightarrow> nat list" where
  "DeltaPrior_to_shape self = [length (dp_value self)]"

definition DeltaPrior_forward :: "DeltaPrior \<Rightarrow> fl list \<Rightarrow> fl list" where
  "DeltaPrior_forward self U = dp_value self"

text \<open>
  Modelled from the spec: \<open>broadcast_shapes\<close> and \<open>tuple_prod\<close> (jaxns/utils.py).
  Section 4.1 says that construction fails when the hyperparameter shapes cannot be
  broadcast together.  For rank-one shapes:
\<close>

fun broadcast_shapes :: "nat list \<Rightarrow> nat list \<Rightarrow> error + nat list" where
  "broadcast_shapes [m] [n] =
     (if m = n \<or> n = 1 then Inr [m] else if m = 1 then Inr [n]
      else Inl (ValueError ''shapes cannot be broadcast''))"
| "broadcast_shapes s t =
     (if s = t then Inr s else Inl (ValueError ''shapes cannot be broadcast''))"

definition tuple_prod :: "nat list \<Rightarrow> nat" where
  "tuple_prod shp = prod_list shp"

record UniformPrior =
  up_base :: PriorTransform
  up_broadcast_shape :: "nat list"

text \<open>
  \<open>UniformPrior.__init__\<close> for hyperparameters that are plain values: each is wrapped
  in an untracked \<open>DeltaPrior\<close>.
\<close>

definition UniformPrior_init ::
  "string \<Rightarrow> pyval \<Rightarrow> pyval \<Rightarrow> bool \<Rightarrow> error + (UniformPrior \<times> DeltaPrior \<times> DeltaPrior)" where
  "UniformPrior_init nm low high trk =
     (let low' = DeltaPrior_init (''_'' @ nm @ ''_low'') low False;
          high' = DeltaPrior_init (''_'' @ nm @ ''_high'') high False
      in case broadcast_shapes (DeltaPrior_to_shape low') (DeltaPrior_to_shape high') of
           Inl e \<Rightarrow> Inl e
         | Inr shp \<Rightarrow>
             Inr (\<lparr>up_base = PriorTransform nm (tuple_prod shp) [dp_base low', dp_base high'] trk,
                   up_broadcast_shape = shp\<rparr>, low', high'))"

definition UniformPrior_to_shape :: "UniformPrior \<Rightarrow> nat list" where
  "UniformPrior_to_shape self = up_broadcast_shape self"

text \<open>\<open>low + jnp.reshape(U, self.to_shape) * (high - low)\<close>\<close>

definition UniformPrior_forward ::
  "UniformPrior \<Rightarrow> fl list \<Rightarrow> fl list \<Rightarrow> fl list \<Rightarrow> error + fl list" where
  "UniformPrior_forward self U low high =
     (case reshape U (UniformPrior_to_shape self) of
        Inl e \<Rightarrow> Inl e
      | Inr U' \<Rightarrow>
          (case broadcast2 fl_sub high low of
             Inl e \<Rightarrow> Inl e
           | Inr d \<Rightarrow>
               (case broadcast2 fl_mul U' d of
                  Inl e \<Rightarrow> Inl e
                | Inr p \<Rightarrow> broadcast2 fl_add low p)))"

text \<open>
  \<open>jnp.finfo(U.dtype).eps\<close>, the machine epsilon of the dtype of the uniform input.
\<close>

datatype dtype = Float16 | BFloat16 | Float32 | Float64

fun finfo_eps :: "dtype \<Rightarrow> real" where
  "finfo_eps Float16 = 1 / 2 ^ 10"
| "finfo_eps BFloat16 = 1 / 2 ^ 7"
| "finfo_eps Float32 = 1 / 2 ^ 23"
| "finfo_eps Float64 = 1 / 2 ^ 52"

text \<open>\<open>Gumbel.forward\<close>: \<open>-jnp.log(-jnp.log(jnp.maximum(U, eps)))\<close>\<close>

definition Gumbel_component :: "dtype \<Rightarrow> fl \<Rightarrow> fl" where
  "Gumbel_component dt u =
     fl_neg (fl_log (fl_neg (fl_log (fl_maximum u (Fin (finfo_eps dt))))))"

definition Gumbel_forward :: "dtype \<Rightarrow> fl list \<Rightarrow> fl list" where
  "Gumbel_forward dt U = map (Gumbel_component dt) U"

text \<open>
  \<open>CategoricalPrior.forward\<close>: \<open>jnp.argmax(logits + gumbel)[None]\<close>.  Its own uniform
  input \<open>U\<close> is not used; the parent \<open>gumbel\<close> holds the transformed noise.
\<close>

definition CategoricalPrior_forward ::
  "fl list \<Rightarrow> fl list \<Rightarrow> fl list \<Rightarrow> error + nat list" where
  "CategoricalPrior_forward U gumbel logits =
     (case broadcast2 fl_add logits gumbel of
        Inl e \<Rightarrow> Inl e
      | Inr s \<Rightarrow> (case argmax s of Inl e \<Rightarrow> Inl e | Inr k \<Rightarrow> Inr [k]))"

text \<open>
  Modelled from the spec: the composition of a prior chain (prior\_chain.py) evaluates
  the nodes in topological order, slicing the uniform vector per node and passing the
  parents' outputs on.  For a Categorical node over constant logits the parents are the
  Gumbel node, which consumes \<open>U_gumbel\<close>, and the Delta node of the logits.
\<close>

definition Categorical_chain :: "dtype \<Rightarrow> fl list \<Rightarrow> fl list \<Rightarrow> fl list \<Rightarrow> error + nat list" where
  "Categorical_chain dt U_gumbel U_own logits =
     CategoricalPrior_forward U_own (Gumbel_forward dt U_gumbel) logits"

section \<open>The nested sampler (nested\_sampling.py)\<close>

subsection \<open>Errors as values, dictionaries, array updates\<close>

definition ebind :: "error + 'a \<Rightarrow> ('a \<Rightarrow> error + 'b) \<Rightarrow> error + 'b" where
  "ebind m f = (case m of Inl e \<Rightarrow> Inl e | Inr x \<Rightarrow> f x)"

definition of_option :: "error \<Rightarrow> 'a option \<Rightarrow> error + 'a" where
  "of_option e m = (case m of None \<Rightarrow> Inl e | Some x \<Rightarrow> Inr x)"

text \<open>
  A dictionary keeps its insertion order: an association list.  A constrained sample
  maps each prior's name to its value; a batch maps it to an array with one row per
  point (the trailing dimensions of a value are kept flat in a row).
\<close>

type_synonym sample = "(string \<times> fl list) list"
type_synonym batch = "(string \<times> fl list list) list"

text \<open>
  \<open>lax.dynamic_update_slice(operand, update, [start])\<close> on rank one: an update longer
  than the operand is a type error; the start index is clamped so that the update fits.
\<close>

definition dynamic_update_slice :: "'a list \<Rightarrow> 'a list \<Rightarrow> nat \<Rightarrow> error + 'a list" where
  "dynamic_update_slice operand update start =
     (if length operand < length update
      then Inl (TypeError ''dynamic_update_slice update shape must be smaller than operand shape'')
      else let s = min start (length operand - length update)
           in Inr (take s operand @ update @ drop (s + length update) operand))"

text \<open>
  The same on rank two, for an update \<open>y[None, ...]\<close> of one row written at
  \<open>[start, 0]\<close>: the row must not be longer than the operand's rows.
\<close>

definition dynamic_update_slice_row ::
  "'a list list \<Rightarrow> 'a list \<Rightarrow> nat \<Rightarrow> error + 'a list list" where
  "dynamic_update_slice_row operand y start =
     (case operand of
        [] \<Rightarrow> Inl (TypeError ''dynamic_update_slice update shape must be smaller than operand shape'')
      | r # _ \<Rightarrow>
          if length r < length y
          then Inl (TypeError ''dynamic_update_slice update shape must be smaller than operand shape'')
          else let s = min start (length operand - 1)
               in Inr (operand[s := y @ drop (length y) (operand ! s)]))"

text \<open>
  Modelled from the spec: \<open>dict_multimap\<close> (jaxns/utils.py).  It applies a function
  to the values of a dictionary, key by key, taking the values under the same key from
  the further dictionaries; a key missing there raises.
\<close>

fun sequence_err :: "(error + 'a) list \<Rightarrow> error + 'a list" where
  "sequence_err [] = Inr []"
| "sequence_err (m # ms) =
     (case m of Inl e \<Rightarrow> Inl e
      | Inr x \<Rightarrow> (case sequence_err ms of Inl e \<Rightarrow> Inl e | Inr xs \<Rightarrow> Inr (x # xs)))"

definition dict_multimap :: "('a \<Rightarrow> error + 'b) \<Rightarrow> (string \<times> 'a) list \<Rightarrow> error + (string \<times> 'b) list" where
  "dict_multimap f d =
     sequence_err (map (\<lambda>(k, x). ebind (f x) (\<lambda>v. Inr (k, v))) d)"

definition dict_multimap2 ::
  "('a \<Rightarrow> 'c \<Rightarrow> error + 'b) \<Rightarrow> (string \<times> 'a) list \<Rightarrow> (string \<times> 'c) list \<Rightarrow> error + (string \<times> 'b) list" where
  "dict_multimap2 f d e =
     sequence_err (map (\<lambda>(k, x).
        ebind (of_option (KeyError k) (map_of e k)) (\<lambda>y.
        ebind (f x y) (\<lambda>v. Inr (k, v)))) d)"

text \<open>
  Several rows written at \<open>[start, 0]\<close>, as in the assembly of the samples.
\<close>

definition dynamic_update_slice_rows ::
  "'a list list \<Rightarrow> 'a list list \<Rightarrow> nat \<Rightarrow> error + 'a list list" where
  "dynamic_update_slice_rows operand update start =
     (if length operand < length update \<or> (\<exists>r\<in>set operand. \<exists>y\<in>set update. length r < length y)
      then Inl (TypeError ''dynamic_update_slice update shape must be smaller than operand shape'')
      else let s = min start (length operand - length update)
           in Inr (take s operand
                   @ map2 (\<lambda>y r. y @ drop (length y) r) update (take (length update) (drop s operand))
                   @ drop (s + length update) operand))"

text \<open>
  Row \<open>i\<close> of an array, \<open>x[i, ...]\<close>: an index past the end is clamped; an array
  without rows has none to give.
\<close>

definition row_at :: "nat \<Rightarrow> 'a list \<Rightarrow> error + 'a" where
  "row_at i xs =
     (if xs = [] then Inl (ValueError ''index is out of bounds for axis 0 with size 0'')
      else Inr (xs ! min i (length xs - 1)))"

subsection \<open>Collaborators\<close>

text \<open>
  The likelihood function returns an array: either of shape \<open>()\<close>, a single float, or
  of another shape, of which only the shape is looked at.
\<close>

datatype lik_out = Scalar fl | NonScalar "nat list"

text \<open>
  Modelled from the spec: the prior chain (prior\_chain.py): its priors by name, the
  total uniform dimensionality, the shapes of the constrained values and the composed
  forward evaluation.
\<close>

record PriorChain =
  pc_prior_chain :: "(string \<times> PriorTransform) list"
  pc_U_ndims :: nat
  pc_to_shapes :: "(string \<times> nat list) list"
  pc_call :: "fl list \<Rightarrow> sample"

text \<open>
  Modelled from the spec: the evidence tracker (param\_tracking.py,
  \<open>TrackedExpectation\<close>), by the operations the engine calls on it.  \<open>'ts\<close> is its
  state.  \<open>update_from_live_points\<close> returns the advanced state and the entries 1, 2
  and 3 of its result: the log-likelihoods, log-volumes and log-weights of the live
  points.
\<close>

record 'ts TrackedExpectation =
  te_state :: 'ts
  te_update :: "'ts \<Rightarrow> sample \<Rightarrow> nat \<Rightarrow> fl \<Rightarrow> 'ts"
  te_X_log_value :: "'ts \<Rightarrow> fl"
  te_dw_log_value :: "'ts \<Rightarrow> fl"
  te_evidence_mean :: "'ts \<Rightarrow> fl"
  te_evidence_variance :: "'ts \<Rightarrow> fl"
  te_effective_sample_size :: "'ts \<Rightarrow> fl"
  te_information_gain_mean :: "'ts \<Rightarrow> fl"
  te_information_gain_variance :: "'ts \<Rightarrow> fl"
  te_marg_mean :: "'ts \<Rightarrow> sample"
  te_update_from_live_points :: "'ts \<Rightarrow> batch \<Rightarrow> fl list \<Rightarrow> 'ts \<times> fl list \<times> fl list \<times> fl list"

record ('k, 'ss) sampler_results =
  sr_key :: 'k
  u_new :: "fl list"
  x_new :: sample
  log_L_new :: fl
  sr_num_likelihood_evaluations :: nat
  sr_sampler_state :: 'ss

text \<open>
  Modelled from the spec: the constrained likelihood samplers (likelihood\_samplers.py)
  and the generator of \<open>jax.random\<close>, by their signatures at the call sites.  A sampler
  that finds no point does not return: \<open>None\<close>.
\<close>

record ('k, 'ss, 'ts) env =
  random_split :: "'k \<Rightarrow> nat \<Rightarrow> 'k list"
  random_uniform :: "'k \<Rightarrow> nat \<Rightarrow> fl list"
  new_TrackedExpectation ::
    "(string \<times> (sample \<Rightarrow> nat list)) list option \<Rightarrow> (string \<times> nat list) list option
       \<Rightarrow> 'ts TrackedExpectation"
  init_slice_sampler_state :: "'k \<Rightarrow> fl list list \<Rightarrow> nat \<Rightarrow> fl \<Rightarrow> nat \<Rightarrow> 'ss"
  slice_sampling ::
    "'k \<Rightarrow> fl \<Rightarrow> fl list list \<Rightarrow> nat \<Rightarrow> (sample \<Rightarrow> error + fl) \<Rightarrow> PriorChain \<Rightarrow> nat \<Rightarrow> fl \<Rightarrow> 'ss
       \<Rightarrow> ('k, 'ss) sampler_results option"
  init_multi_ellipsoid_sampler_state :: "'k \<Rightarrow> fl list list \<Rightarrow> nat \<Rightarrow> fl \<Rightarrow> 'ss"
  multi_ellipsoid_sampler ::
    "'k \<Rightarrow> fl \<Rightarrow> fl list list \<Rightarrow> (sample \<Rightarrow> error + fl) \<Rightarrow> PriorChain \<Rightarrow> 'ss \<Rightarrow> fl \<Rightarrow> nat
       \<Rightarrow> ('k, 'ss) sampler_results option"

subsection \<open>State, sampler object, results\<close>

record ('k, 'ss, 'ts) NestedSamplerState =
  key :: 'k
  is_done :: bool
  iter_i :: nat
  num_likelihood_evaluations :: nat
  live_points_U :: "fl list list"
  live_points :: batch
  log_L_live :: "fl list"
  dead_points :: "batch option"
  log_X :: "fl list option"
  log_w :: "fl list option"
  num_dead :: nat
  log_L_dead :: "fl list option"
  sampler_efficiency :: "fl list option"
  status :: nat
  sampler_state :: 'ss
  tracked_expectations_state :: 'ts

record NestedSampler =
  sampler_name :: string
  loglikelihood :: "sample \<Rightarrow> error + fl"
  prior_chain :: PriorChain
  loglikelihood_from_U :: "fl list \<Rightarrow> error + fl"
  marginalised :: "(string \<times> (sample \<Rightarrow> nat list)) list option"
  marginalised_shapes :: "(string \<times> nat list) list option"

record NestedSamplerResults =
  logZ :: fl
  logZerr :: fl
  ESS :: fl
  ESS_err :: "fl option"
  H :: fl
  H_err :: fl
  res_num_likelihood_evaluations :: nat
  efficiency :: fl
  res_marginalised :: "sample option"
  marginalised_uncert :: "sample option"
  log_L_samples :: "fl list option"
  n_per_sample :: "fl list option"
  log_p :: "fl list option"
  res_log_X :: "fl list option"
  res_sampler_efficiency :: "fl list option"
  num_samples :: nat
  samples :: "batch option"

definition available_samplers :: "string list" where
  "available_samplers = [''slice'', ''multi_ellipsoid'']"

text \<open>
  \<open>fixed_likelihood\<close>, the closure of \<open>__init__\<close>: the test \<open>log_L.shape != ()\<close>
  raises, and \<open>jnp.where(jnp.isnan(log_L), -jnp.inf, log_L)\<close> replaces a NaN.
\<close>

fun fixed_likelihood :: "(sample \<Rightarrow> lik_out) \<Rightarrow> sample \<Rightarrow> error + fl" where
  "fixed_likelihood loglik x =
     (case loglik x of
        NonScalar shp \<Rightarrow> Inl (ValueError ''Shape of likelihood should be scalar'')
      | Scalar log_L \<Rightarrow> Inr (if isnan log_L then NegInf else log_L))"

text \<open>
  \<open>NestedSampler.__init__\<close>.  A marginalised function is looked at through the shape
  of its output, evaluated on a sample of zeros.
\<close>

definition zeros :: "nat list \<Rightarrow> fl list" where
  "zeros shp = replicate (prod_list shp) (Fin 0)"

definition NestedSampler_init ::
  "(sample \<Rightarrow> lik_out) \<Rightarrow> PriorChain \<Rightarrow> string \<Rightarrow> (string \<times> (sample \<Rightarrow> nat list)) list
     \<Rightarrow> error + NestedSampler" where
  "NestedSampler_init loglik pc sname marg =
     (if sname \<notin> set available_samplers
      then Inl (ValueError ''sampler should be one of the available samplers'')
      else let test_input = map (\<lambda>(k, shp). (k, zeros shp)) (pc_to_shapes pc)
           in Inr \<lparr>sampler_name = sname,
                   loglikelihood = fixed_likelihood loglik,
                   prior_chain = pc,
                   loglikelihood_from_U = (\<lambda>U. fixed_likelihood loglik (pc_call pc U)),
                   marginalised = (if 0 < length marg then Some marg else None),
                   marginalised_shapes =
                     (if 0 < length marg then Some (map (\<lambda>(k, m). (k, m test_input)) marg)
                      else None)\<rparr>)"

subsection \<open>initial\_state\<close>

definition unpack2 :: "'a list \<Rightarrow> error + ('a \<times> 'a)" where
  "unpack2 xs =
     (case xs of [a, b] \<Rightarrow> Inr (a, b)
      | _ \<Rightarrow> Inl (ValueError ''wrong number of values to unpack''))"

definition kwargs_get :: "(string \<times> nat) list \<Rightarrow> string \<Rightarrow> nat \<Rightarrow> nat" where
  "kwargs_get kw k d = (case map_of kw k of None \<Rightarrow> d | Some v \<Rightarrow> v)"

definition filter_prior_chain :: "NestedSampler \<Rightarrow> (string \<times> 'a) list \<Rightarrow> error + (string \<times> 'a) list" where
  "filter_prior_chain self d =
     sequence_err
       (map (\<lambda>(nm, prior). ebind (of_option (KeyError nm) (map_of d nm)) (\<lambda>v. Inr (nm, v)))
            (filter (\<lambda>(nm, prior). tracked prior) (pc_prior_chain (prior_chain self))))"

definition single_sample ::
  "('k, 'ss, 'ts) env \<Rightarrow> NestedSampler \<Rightarrow> 'k \<Rightarrow> error + (fl list \<times> sample \<times> fl)" where
  "single_sample env self k =
     (let U = random_uniform env k (pc_U_ndims (prior_chain self));
          constrained = pc_call (prior_chain self) U
      in ebind (loglikelihood self constrained) (\<lambda>log_L. Inr (U, constrained, log_L)))"

text \<open>\<open>vmap\<close> stacks the dictionaries of the points into one dictionary of arrays.\<close>

fun stack_samples :: "sample list \<Rightarrow> error + batch" where
  "stack_samples [] = Inr []"
| "stack_samples (s # ss) =
     sequence_err
       (map (\<lambda>(k, v).
               ebind (sequence_err (map (\<lambda>s'. of_option (KeyError k) (map_of s' k)) ss))
                 (\<lambda>rows. Inr (k, v # rows))) s)"

definition allocate ::
  "NestedSampler \<Rightarrow> int \<Rightarrow> bool \<Rightarrow> bool
     \<Rightarrow> error + (batch option \<times> fl list option \<times> fl list option \<times> fl list option \<times> fl list option)" where
  "allocate self max_samples collect_samples only_marginalise =
     (if \<not> only_marginalise then
        (if max_samples < 0 then Inl (ValueError ''negative dimensions are not allowed'')
         else
           ebind (if collect_samples
                  then ebind (filter_prior_chain self (pc_to_shapes (prior_chain self)))
                         (\<lambda>d. Inr (Some (map (\<lambda>(k, shp). (k, replicate (nat max_samples) (zeros shp))) d)))
                  else Inr None)
             (\<lambda>dead_points'.
                Inr (dead_points',
                     Some (replicate (nat max_samples) (Fin 0)),
                     Some (replicate (nat max_samples) (Fin 1)),
                     Some (replicate (nat max_samples) (fl_mul NegInf (Fin 1))),
                     Some (replicate (nat max_samples) (fl_mul NegInf (Fin 1))))))
      else Inr (None, None, None, None, None))"

definition initial_state ::
  "('k, 'ss, 'ts) env \<Rightarrow> NestedSampler \<Rightarrow> 'k \<Rightarrow> nat \<Rightarrow> int \<Rightarrow> bool \<Rightarrow> bool \<Rightarrow> (string \<times> nat) list
     \<Rightarrow> error + ('k, 'ss, 'ts) NestedSamplerState" where
  "initial_state env self key0 num_live_points max_samples collect_samples only_marginalise
       sampler_kwargs =
     ebind (unpack2 (random_split env key0 2)) (\<lambda>(key1, init_key).
     ebind (sequence_err (map (single_sample env self) (random_split env init_key num_live_points)))
       (\<lambda>rs.
     ebind (stack_samples (map (\<lambda>r. fst (snd r)) rs)) (\<lambda>live_points'.
     ebind (allocate self max_samples collect_samples only_marginalise)
       (\<lambda>(dead_points', log_L_dead', sampler_efficiency', log_X', log_w').
     let live_points_U' = map fst rs;
         log_L_live' = map (\<lambda>r. snd (snd r)) rs;
         te = new_TrackedExpectation env (marginalised self) (marginalised_shapes self)
     in
     ebind (if sampler_name self = ''slice'' then
              ebind (unpack2 (random_split env key1 2)) (\<lambda>(key2, init_sampler_state_key).
                Inr (key2, init_slice_sampler_state env init_sampler_state_key live_points_U'
                             (kwargs_get sampler_kwargs ''depth'' 3)
                             (te_X_log_value te (te_state te))
                             (kwargs_get sampler_kwargs ''num_slices'' 1)))
            else if sampler_name self = ''multi_ellipsoid'' then
              ebind (unpack2 (random_split env key1 2)) (\<lambda>(key2, init_sampler_state_key).
                Inr (key2, init_multi_ellipsoid_sampler_state env init_sampler_state_key
                             live_points_U' (kwargs_get sampler_kwargs ''depth'' 3)
                             (te_X_log_value te (te_state te))))
            else Inl (ValueError ''Invalid sampler name''))
       (\<lambda>(key2, sampler_state').
     Inr \<lparr>key = key2,
          is_done = False,
          iter_i = 0,
          num_likelihood_evaluations = num_live_points,
          live_points_U = live_points_U',
          live_points = live_points',
          log_L_live = log_L_live',
          dead_points = dead_points',
          log_X = log_X',
          log_w = log_w',
          num_dead = 0,
          log_L_dead = log_L_dead',
          sampler_efficiency = sampler_efficiency',
          status = 0,
          sampler_state = sampler_state',
          tracked_expectations_state = te_state te\<rparr>)))))"

subsection \<open>\_one\_step\<close>

text \<open>A buffer that was not allocated is \<open>None\<close>; using it is a type error.\<close>

definition buffer :: "'a option \<Rightarrow> error + 'a" where
  "buffer b = of_option (TypeError ''NoneType'') b"

text \<open>The bookkeeping of the dead point, under \<open>if not only_marginalise\<close>.\<close>

definition record_dead ::
  "('k, 'ss, 'ts) NestedSamplerState \<Rightarrow> bool \<Rightarrow> sample \<Rightarrow> fl \<Rightarrow> fl \<Rightarrow> fl
     \<Rightarrow> error + ('k, 'ss, 'ts) NestedSamplerState" where
  "record_dead s collect_samples dead_point X_log_value dw_log_value log_L_min =
     ebind (buffer (log_X s)) (\<lambda>b_X.
     ebind (dynamic_update_slice b_X [X_log_value] (num_dead s)) (\<lambda>log_X'.
     ebind (buffer (log_w s)) (\<lambda>b_w.
     ebind (dynamic_update_slice b_w [dw_log_value] (num_dead s)) (\<lambda>log_w'.
     ebind (buffer (log_L_dead s)) (\<lambda>b_L.
     ebind (dynamic_update_slice b_L [log_L_min] (num_dead s)) (\<lambda>log_L_dead'.
     let s1 = s\<lparr>log_X := Some log_X', log_w := Some log_w', log_L_dead := Some log_L_dead'\<rparr>
     in if collect_samples then
          ebind (buffer (dead_points s1)) (\<lambda>b_d.
          ebind (dict_multimap2 (\<lambda>x y. dynamic_update_slice_row x y (num_dead s1)) b_d dead_point)
            (\<lambda>dead_points'. Inr (s1\<lparr>dead_points := Some dead_points'\<rparr>)))
        else Inr s1))))))"

text \<open>The call of the sampler that was selected at construction.\<close>

definition call_sampler ::
  "('k, 'ss, 'ts) env \<Rightarrow> NestedSampler \<Rightarrow> ('k, 'ss, 'ts) NestedSamplerState \<Rightarrow> (string \<times> nat) list
     \<Rightarrow> fl \<Rightarrow> nat \<Rightarrow> fl \<Rightarrow> error + ('k, 'ss) sampler_results" where
  "call_sampler env self s sampler_kwargs log_L_min i_min X_log_value =
     (if sampler_name self = ''slice'' then
        of_option SamplerDiverged
          (slice_sampling env (key s) log_L_min (live_points_U s)
             (kwargs_get sampler_kwargs ''num_slices'' 1) (loglikelihood self) (prior_chain self)
             i_min X_log_value (sampler_state s))
      else if sampler_name self = ''multi_ellipsoid'' then
        of_option SamplerDiverged
          (multi_ellipsoid_sampler env (key s) log_L_min (live_points_U s) (loglikelihood self)
             (prior_chain self) (sampler_state s) X_log_value i_min)
      else Inl (ValueError ''Invalid sampler name''))"

definition one_step ::
  "('k, 'ss, 'ts) env \<Rightarrow> NestedSampler \<Rightarrow> ('k, 'ss, 'ts) NestedSamplerState \<Rightarrow> bool \<Rightarrow> bool
     \<Rightarrow> (string \<times> nat) list \<Rightarrow> error + ('k, 'ss, 'ts) NestedSamplerState" where
  "one_step env self s collect_samples only_marginalise sampler_kwargs =
     ebind (argmin (log_L_live s)) (\<lambda>i_min.
     ebind (dict_multimap (row_at i_min) (live_points s)) (\<lambda>dead_point.
     let log_L_min = log_L_live s ! i_min;
         N = length (log_L_live s);
         te = new_TrackedExpectation env (marginalised self) (marginalised_shapes self);
         ts = te_update te (tracked_expectations_state s) dead_point N log_L_min
     in
     ebind (if \<not> only_marginalise
            then record_dead s collect_samples dead_point (te_X_log_value te ts)
                   (te_dw_log_value te ts) log_L_min
            else Inr s) (\<lambda>s1.
     ebind (call_sampler env self s1 sampler_kwargs log_L_min i_min (te_X_log_value te ts))
       (\<lambda>sampler_results.
     ebind (dynamic_update_slice (log_L_live s1) [log_L_new sampler_results] i_min)
       (\<lambda>log_L_live'.
     ebind (dict_multimap2 (\<lambda>x y. dynamic_update_slice_row x y i_min) (live_points s1)
              (x_new sampler_results)) (\<lambda>live_points'.
     ebind (dynamic_update_slice_row (live_points_U s1) (u_new sampler_results) i_min)
       (\<lambda>live_points_U'.
     ebind (if \<not> only_marginalise
            then ebind (buffer (sampler_efficiency s1)) (\<lambda>b_e.
                 ebind (dynamic_update_slice b_e
                          [fl_div_nat 1 (sr_num_likelihood_evaluations sampler_results)]
                          (num_dead s1)) (\<lambda>sampler_efficiency'.
                 Inr (s1\<lparr>sampler_efficiency := Some sampler_efficiency'\<rparr>)))
            else Inr s1) (\<lambda>s2.
     Inr (s2\<lparr>key := sr_key sampler_results,
             num_likelihood_evaluations :=
               num_likelihood_evaluations s2 + sr_num_likelihood_evaluations sampler_results,
             log_L_live := log_L_live',
             live_points := live_points',
             live_points_U := live_points_U',
             sampler_state := sr_sampler_state sampler_results,
             tracked_expectations_state := ts,
             num_dead := num_dead s2 + 1\<rparr>)))))))))"

subsection \<open>The loop of \_\_call\_\_\<close>

text \<open>
  \<open>logZ_live = logsumexp(log_L_live) - log(N) + X.log_value\<close>, the evidence left in the
  live points.
\<close>

definition logZ_live ::
  "('k, 'ss, 'ts) env \<Rightarrow> NestedSampler \<Rightarrow> ('k, 'ss, 'ts) NestedSamplerState \<Rightarrow> fl" where
  "logZ_live env self s =
     (let te = new_TrackedExpectation env (marginalised self) (marginalised_shapes self)
      in fl_add (fl_sub (logsumexp (log_L_live s)) (fl_log (Fin (real (length (log_L_live s))))))
           (te_X_log_value te (tracked_expectations_state s)))"

definition evidence_mean ::
  "('k, 'ss, 'ts) env \<Rightarrow> NestedSampler \<Rightarrow> ('k, 'ss, 'ts) NestedSamplerState \<Rightarrow> fl" where
  "evidence_mean env self s =
     (let te = new_TrackedExpectation env (marginalised self) (marginalised_shapes self)
      in te_evidence_mean te (tracked_expectations_state s))"

definition body ::
  "('k, 'ss, 'ts) env \<Rightarrow> NestedSampler \<Rightarrow> bool \<Rightarrow> bool \<Rightarrow> (string \<times> nat) list \<Rightarrow> fl \<Rightarrow> int
     \<Rightarrow> ('k, 'ss, 'ts) NestedSamplerState \<Rightarrow> error + ('k, 'ss, 'ts) NestedSamplerState" where
  "body env self collect_samples only_marginalise sampler_kwargs termination_frac max_samples s =
     ebind (one_step env self s collect_samples only_marginalise sampler_kwargs) (\<lambda>s1.
     let done = fl_lt (logZ_live env self s1)
                  (fl_add (fl_log termination_frac) (evidence_mean env self s1))
                \<or> max_samples \<le> int (iter_i s1 + 1)
     in Inr (s1\<lparr>is_done := done, iter_i := iter_i s1 + 1\<rparr>))"

function while_loop ::
  "('k, 'ss, 'ts) env \<Rightarrow> NestedSampler \<Rightarrow> bool \<Rightarrow> bool \<Rightarrow> (string \<times> nat) list \<Rightarrow> fl \<Rightarrow> int
     \<Rightarrow> ('k, 'ss, 'ts) NestedSamplerState \<Rightarrow> error + ('k, 'ss, 'ts) NestedSamplerState" where
  "while_loop env self collect_samples only_marginalise sampler_kwargs termination_frac max_samples s =
     (if is_done s then Inr s
      else case body env self collect_samples only_marginalise sampler_kwargs termination_frac
                  max_samples s of
             Inl e \<Rightarrow> Inl e
           | Inr s' \<Rightarrow> while_loop env self collect_samples only_marginalise sampler_kwargs
                        termination_frac max_samples s')"
  by pat_completeness auto

subsection \<open>\_finalise\_results and \_\_call\_\_\<close>

text \<open>
  \<open>jnp.argsort\<close>: the indices in ascending order of the values, stable, NaN last.
\<close>

definition sort_lt :: "fl \<Rightarrow> fl \<Rightarrow> bool" where
  "sort_lt a b = (\<not> isnan a \<and> (isnan b \<or> fl_lt a b))"

fun insort_idx :: "fl list \<Rightarrow> nat \<Rightarrow> nat list \<Rightarrow> nat list" where
  "insort_idx xs j [] = [j]"
| "insort_idx xs j (k # ks) =
     (if sort_lt (xs ! k) (xs ! j) then k # insort_idx xs j ks else j # k # ks)"

definition argsort :: "fl list \<Rightarrow> nat list" where
  "argsort xs = foldr (insort_idx xs) [0..<length xs] []"

text \<open>The diagnostics assembled under \<open>if not only_marginalise\<close>.\<close>

definition finalise_buffers ::
  "('k, 'ss, 'ts) NestedSamplerState \<Rightarrow> int \<Rightarrow> fl list \<Rightarrow> fl list \<Rightarrow> fl list
     \<Rightarrow> error + (fl list \<times> fl list \<times> fl list \<times> fl list \<times> fl list)" where
  "finalise_buffers s max_samples live_L live_X live_w =
     (let num_live_points = length (log_L_live s) in
      ebind (dynamic_update_slice
               (map (\<lambda>j. if j < num_dead s then Fin (real num_live_points) else PosInf)
                    [0..<nat max_samples])
               (map (\<lambda>j. Fin (real num_live_points - real j)) [0..<num_live_points])
               (num_dead s)) (\<lambda>n_per_sample'.
      ebind (buffer (sampler_efficiency s)) (\<lambda>b_e.
      ebind (dynamic_update_slice b_e (replicate num_live_points (Fin 1)) (num_dead s))
        (\<lambda>sampler_efficiency'.
      ebind (buffer (log_w s)) (\<lambda>b_w.
      ebind (dynamic_update_slice b_w live_w (num_dead s)) (\<lambda>log_w'.
      let log_p' = map (\<lambda>w. fl_sub w (logsumexp log_w')) log_w' in
      ebind (buffer (log_X s)) (\<lambda>b_X.
      ebind (dynamic_update_slice b_X live_X (num_dead s)) (\<lambda>log_X'.
      ebind (buffer (log_L_dead s)) (\<lambda>b_L.
      ebind (dynamic_update_slice b_L live_L (num_dead s)) (\<lambda>log_L_samples'.
      Inr (n_per_sample', log_p', log_X', log_L_samples', sampler_efficiency')))))))))))"

definition finalise_results ::
  "('k, 'ss, 'ts) env \<Rightarrow> NestedSampler \<Rightarrow> ('k, 'ss, 'ts) NestedSamplerState \<Rightarrow> bool \<Rightarrow> bool \<Rightarrow> int
     \<Rightarrow> error + NestedSamplerResults" where
  "finalise_results env self s collect_samples only_marginalise max_samples =
     (let te = new_TrackedExpectation env (marginalised self) (marginalised_shapes self)
      in case te_update_from_live_points te (tracked_expectations_state s) (live_points s)
                (log_L_live s) of
        (ts, live_L, live_X, live_w) \<Rightarrow>
      ebind (if \<not> only_marginalise
             then ebind (finalise_buffers s max_samples live_L live_X live_w)
                    (\<lambda>(n, p, X, L, e). Inr (Some n, Some p, Some X, Some L, Some e))
             else Inr (None, None, None, None, None))
        (\<lambda>(n_per_sample', log_p', log_X', log_L_samples', sampler_efficiency').
      ebind (if collect_samples \<and> \<not> only_marginalise
             then ebind (buffer (dead_points s)) (\<lambda>b_d.
                  ebind (dict_multimap2
                           (\<lambda>dead live.
                              ebind (sequence_err (map (\<lambda>k. row_at k live) (argsort (log_L_live s))))
                                (\<lambda>rows. dynamic_update_slice_rows dead rows (num_dead s)))
                           b_d (live_points s))
                    (\<lambda>sm. Inr (Some sm)))
             else Inr None) (\<lambda>samples'.
      Inr \<lparr>logZ = te_evidence_mean te ts,
           logZerr = fl_sqrt (te_evidence_variance te ts),
           ESS = te_effective_sample_size te ts,
           ESS_err = None,
           H = te_information_gain_mean te ts,
           H_err = fl_sqrt (te_information_gain_variance te ts),
           res_num_likelihood_evaluations = num_likelihood_evaluations s,
           efficiency =
             fl_div_nat (num_dead s + length (log_L_live s)) (num_likelihood_evaluations s),
           res_marginalised =
             (if marginalised self \<noteq> None then Some (te_marg_mean te ts) else None),
           marginalised_uncert = None,
           log_L_samples = log_L_samples',
           n_per_sample = n_per_sample',
           log_p = log_p',
           res_log_X = log_X',
           res_sampler_efficiency = sampler_efficiency',
           num_samples = num_dead s + length (log_L_live s),
           samples = samples'\<rparr>)))"

text \<open>
  \<open>__call__\<close>: the state in which the loop ends, and the results assembled from it.
\<close>

definition final_state ::
  "('k, 'ss, 'ts) env \<Rightarrow> NestedSampler \<Rightarrow> 'k \<Rightarrow> nat \<Rightarrow> int \<Rightarrow> bool \<Rightarrow> fl \<Rightarrow> bool
     \<Rightarrow> (string \<times> nat) list option \<Rightarrow> error + ('k, 'ss, 'ts) NestedSamplerState" where
  "final_state env self key0 num_live_points max_samples collect_samples termination_frac
       only_marginalise sampler_kwargs =
     (let kw = (case sampler_kwargs of None \<Rightarrow> [] | Some d \<Rightarrow> d) in
      ebind (initial_state env self key0 num_live_points max_samples collect_samples
               only_marginalise kw)
        (while_loop env self collect_samples only_marginalise kw termination_frac max_samples))"

definition NestedSampler_call ::
  "('k, 'ss, 'ts) env \<Rightarrow> NestedSampler \<Rightarrow> 'k \<Rightarrow> nat \<Rightarrow> int \<Rightarrow> bool \<Rightarrow> fl \<Rightarrow> bool
     \<Rightarrow> (string \<times> nat) list option \<Rightarrow> error + NestedSamplerResults" where
  "NestedSampler_call env self key0 num_live_points max_samples collect_samples termination_frac
       only_marginalise sampler_kwargs =
     ebind (final_state env self key0 num_live_points max_samples collect_samples
              termination_frac only_marginalise sampler_kwargs)
       (\<lambda>s. finalise_results env self s collect_samples only_marginalise max_samples)"

subsection \<open>Auxiliary notions for the proofs\<close>

text \<open>
  The first half of a step: the choice of the dead point, the update of the tracker
  and the bookkeeping, up to the call of the sampler.
\<close>

definition step_pre ::
  "('k, 'ss, 'ts) env \<Rightarrow> NestedSampler \<Rightarrow> ('k, 'ss, 'ts) NestedSamplerState \<Rightarrow> bool \<Rightarrow> bool
     \<Rightarrow> (string \<times> nat) list \<Rightarrow> nat \<Rightarrow> sample \<Rightarrow> 'ts \<Rightarrow> ('k, 'ss, 'ts) NestedSamplerState \<Rightarrow> bool" where
  "step_pre env self s cs om kw i_min dead_point ts s1 \<longleftrightarrow>
     argmin (log_L_live s) = Inr i_min
   \<and> dict_multimap (row_at i_min) (live_points s) = Inr dead_point
   \<and> ts = te_update (new_TrackedExpectation env (marginalised self) (marginalised_shapes self))
             (tracked_expectations_state s) dead_point (length (log_L_live s)) (log_L_live s ! i_min)
   \<and> (if \<not> om
            then record_dead s cs dead_point (te_X_log_value (new_TrackedExpectation env (marginalised self) (marginalised_shapes self)) ts)
                   (te_dw_log_value (new_TrackedExpectation env (marginalised self) (marginalised_shapes self)) ts) (log_L_live s ! i_min)
            else Inr s) = Inr s1"

text \<open>The measure under which the loop terminates.\<close>

definition loop_measure :: "('k, 'ss, 'ts) env \<times> NestedSampler \<times> bool \<times> bool \<times> (string \<times> nat) list \<times> fl \<times> int
     \<times> ('k, 'ss, 'ts) NestedSamplerState \<Rightarrow> nat" where
  "loop_measure = (\<lambda>(env, self, cs, om, kw, tf, ms, s).
          if is_done s then 0 else 1 + nat (ms - int (iter_i s)))"

section \<open>Example inputs\<close>

text \<open>A likelihood function that returns the same array for every sample.\<close>

definition const_loglik :: "lik_out \<Rightarrow> sample \<Rightarrow> lik_out" where
  "const_loglik out x = out"

text \<open>
  A prior chain of one uniform variable, a tracker that counts its updates, and a sampler
  that returns a point one unit above the threshold: collaborators on which the engine
  can be run.
\<close>

definition example_prior_chain :: PriorChain where
  "example_prior_chain =
     \<lparr>pc_prior_chain = [(''x'', PriorTransform ''x'' 1 [] True)],
      pc_U_ndims = 1,
      pc_to_shapes = [(''x'', [1])],
      pc_call = (\<lambda>U. [(''x'', U)])\<rparr>"

definition example_tracker :: "(nat \<Rightarrow> fl) \<Rightarrow> nat TrackedExpectation" where
  "example_tracker E =
     \<lparr>te_state = 0,
      te_update = (\<lambda>ts dead_point N log_L_min. Suc ts),
      te_X_log_value = (\<lambda>ts. Fin (- real ts)),
      te_dw_log_value = (\<lambda>ts. Fin (- real ts)),
      te_evidence_mean = E,
      te_evidence_variance = (\<lambda>ts. Fin 0),
      te_effective_sample_size = (\<lambda>ts. Fin (real ts)),
      te_information_gain_mean = (\<lambda>ts. Fin 0),
      te_information_gain_variance = (\<lambda>ts. Fin 0),
      te_marg_mean = (\<lambda>ts. []),
      te_update_from_live_points =
        (\<lambda>ts live_points log_L_live.
           (ts, log_L_live, map (\<lambda>L. Fin (- real ts)) log_L_live,
            map (\<lambda>L. fl_add L (Fin (- real ts))) log_L_live))\<rparr>"

definition example_sampler :: "nat \<Rightarrow> fl \<Rightarrow> (nat, unit) sampler_results option" where
  "example_sampler k log_L_constraint =
     (case log_L_constraint of
        Fin r \<Rightarrow> Some \<lparr>sr_key = Suc k, u_new = [Fin (1 / 2)], x_new = [(''x'', [Fin (1 / 2)])],
                        log_L_new = Fin (r + 1), sr_num_likelihood_evaluations = 2,
                        sr_sampler_state = ()\<rparr>
      | NegInf \<Rightarrow> Some \<lparr>sr_key = Suc k, u_new = [Fin (1 / 2)], x_new = [(''x'', [Fin (1 / 2)])],
                        log_L_new = Fin 0, sr_num_likelihood_evaluations = 2,
                        sr_sampler_state = ()\<rparr>
      | _ \<Rightarrow> None)"

definition example_env :: "(nat \<Rightarrow> fl) \<Rightarrow> (nat, unit, nat) env" where
  "example_env E =
     \<lparr>random_split = (\<lambda>k n. map (\<lambda>j. 2 * k + j) [0..<n]),
      random_uniform = (\<lambda>k m. replicate m (Fin (1 / 2))),
      new_TrackedExpectation = (\<lambda>marg shapes. example_tracker E),
      init_slice_sampler_state = (\<lambda>k U depth log_X num_slices. ()),
      slice_sampling = (\<lambda>k log_L_constraint U num_slices loglik pc i_min log_X ss.
                          example_sampler k log_L_constraint),
      init_multi_ellipsoid_sampler_state = (\<lambda>k U depth log_X. ()),
      multi_ellipsoid_sampler = (\<lambda>k log_L_constraint U loglik pc ss log_X i_min.
                                   example_sampler k log_L_constraint)\<rparr>"

definition example_sampler_obj :: "lik_out \<Rightarrow> NestedSampler" where
  "example_sampler_obj out =
     \<lparr>sampler_name = ''slice'',
      loglikelihood = fixed_likelihood (const_loglik out),
      prior_chain = example_prior_chain,
      loglikelihood_from_U = (\<lambda>U. fixed_likelihood (const_loglik out) (pc_call example_prior_chain U)),
      marginalised = None,
      marginalised_shapes = None\<rparr>"

text \<open>Two evidence accessors for the example tracker.\<close>

definition no_evidence :: "nat \<Rightarrow> fl" where
  "no_evidence ts = Fin 0"

definition growing_evidence :: "nat \<Rightarrow> fl" where
  "growing_evidence ts = Fin (real ts)"

subsection \<open>Notions used in the statements\<close>

text \<open>
  The live point set is indexed in parallel: the uniform coordinates and every array of
  constrained values have one row per live log-likelihood.
\<close>

definition live_wf :: "('k, 'ss, 'ts) NestedSamplerState \<Rightarrow> bool" where
  "live_wf s \<longleftrightarrow>
     length (live_points_U s) = length (log_L_live s)
   \<and> (\<forall>kx\<in>set (live_points s). length (snd kx) = length (log_L_live s))"

text \<open>
  What \<open>dynamic_update_slice\<close> leaves in a row: the update, followed by what the row
  held beyond the update's length.
\<close>

definition overwrite_row :: "'a list \<Rightarrow> 'a list \<Rightarrow> 'a list" where
  "overwrite_row y old = y @ drop (length y) old"

text \<open>The loop body, a given number of times.\<close>

fun iterate_body ::
  "('k, 'ss, 'ts) env \<Rightarrow> NestedSampler \<Rightarrow> bool \<Rightarrow> bool \<Rightarrow> (string \<times> nat) list \<Rightarrow> fl \<Rightarrow> int
     \<Rightarrow> nat \<Rightarrow> ('k, 'ss, 'ts) NestedSamplerState \<Rightarrow> error + ('k, 'ss, 'ts) NestedSamplerState" where
  "iterate_body env self cs om kw tf ms 0 s = Inr s"
| "iterate_body env self cs om kw tf ms (Suc n) s =
     ebind (body env self cs om kw tf ms s) (iterate_body env self cs om kw tf ms n)"

text \<open>
  The termination predicate on the state after a step:
  \<open>logZ_live < log(termination_frac) + evidence_mean\<close>.
\<close>

definition converged ::
  "('k, 'ss, 'ts) env \<Rightarrow> NestedSampler \<Rightarrow> fl \<Rightarrow> ('k, 'ss, 'ts) NestedSamplerState \<Rightarrow> bool" where
  "converged env self termination_frac s \<longleftrightarrow>
     fl_lt (logZ_live env self s)
       (fl_add (fl_log termination_frac) (evidence_mean env self s))"

text \<open>
  Index \<open>best\<close> holds the first minimum among the first \<open>j\<close> entries.
\<close>

definition is_first_min :: "fl list \<Rightarrow> nat \<Rightarrow> nat \<Rightarrow> bool" where
  "is_first_min ys best j \<longleftrightarrow>
     best < j \<and> j \<le> length ys
   \<and> (\<forall>i<j. fl_le (ys ! best) (ys ! i))
   \<and> (\<forall>i<best. fl_lt (ys ! best) (ys ! i))"

text \<open>
  Modelled from the spec: the contract of the samplers (likelihood\_samplers.py),
  section 4.2: the point returned has a log-likelihood strictly greater than the
  threshold.
\<close>

definition sampler_contract :: "('k, 'ss, 'ts) env \<Rightarrow> bool" where
  "sampler_contract env \<longleftrightarrow>
     (\<forall>k L U n lik pc i X ss r.
        slice_sampling env k L U n lik pc i X ss = Some r \<longrightarrow> fl_lt L (log_L_new r))
   \<and> (\<forall>k L U lik pc ss X i r.
        multi_ellipsoid_sampler env k L U lik pc ss X i = Some r \<longrightarrow> fl_lt L (log_L_new r))"

text \<open>
  The invariant of the loop behind the order of the dead points: the recorded
  log-likelihoods are in non-decreasing order and none exceeds a live one.
\<close>

definition dead_inv :: "int \<Rightarrow> ('k, 'ss, 'ts) NestedSamplerState \<Rightarrow> bool" where
  "dead_inv max_samples s \<longleftrightarrow>
     (\<exists>d. log_L_dead s = Some d
        \<and> length d = nat max_samples
        \<and> num_dead s = iter_i s
        \<and> num_dead s \<le> length d
        \<and> (0 < iter_i s \<and> \<not> is_done s \<longrightarrow> int (iter_i s) < max_samples)
        \<and> sorted_wrt fl_le (take (num_dead s) d)
        \<and> (\<forall>x\<in>set (take (num_dead s) d). \<forall>y\<in>set (log_L_live s). fl_le x y)
        \<and> (\<forall>y\<in>set (log_L_live s). \<not> isnan y))"

text \<open>
  One elimination, in the words of the specification: \<open>x\<close> is a minimum of the live
  log-likelihoods \<open>L\<close>, and \<open>L'\<close> is \<open>L\<close> with one entry that held \<open>x\<close> replaced by a
  strictly greater value.
\<close>

definition replaces_minimum :: "fl list \<Rightarrow> fl list \<Rightarrow> fl \<Rightarrow> bool" where
  "replaces_minimum L L' x \<longleftrightarrow>
     (\<exists>i<length L. L ! i = x \<and> (\<forall>y\<in>set L. fl_le x y)
        \<and> L' = L[i := L' ! i] \<and> fl_lt x (L' ! i))"

text \<open>
  A log-weight in linear space: \<open>exp\<close> of a finite value, zero for \<open>-inf\<close>.  A
  log-weight is proper when it is finite or \<open>-inf\<close>.
\<close>

fun lin_weight :: "fl \<Rightarrow> real" where
  "lin_weight (Fin r) = exp r"
| "lin_weight _ = 0"

fun proper_weight :: "fl \<Rightarrow> bool" where
  "proper_weight (Fin r) = True"
| "proper_weight NegInf = True"
| "proper_weight _ = False"

definition lin_sum :: "fl list \<Rightarrow> real" where
  "lin_sum w = sum_list (map lin_weight w)"

text \<open>
  The log-sum-exp of the \<open>log_p\<close> of a result, when the run returned and recorded
  diagnostics.
\<close>

definition logsumexp_log_p :: "error + NestedSamplerResults \<Rightarrow> fl option" where
  "logsumexp_log_p run =
     (case run of Inl e \<Rightarrow> None | Inr res \<Rightarrow> map_option logsumexp (log_p res))"

text \<open>
  The log-weights as \<open>_finalise_results\<close> assembles them: the buffer of the dead
  points with the log-weights of the live points written at \<open>num_dead\<close>.
\<close>

definition assembled_log_w ::
  "('k, 'ss, 'ts) env \<Rightarrow> NestedSampler \<Rightarrow> ('k, 'ss, 'ts) NestedSamplerState \<Rightarrow> error + fl list" where
  "assembled_log_w env self s =
     (let te = new_TrackedExpectation env (marginalised self) (marginalised_shapes self)
      in case te_update_from_live_points te (tracked_expectations_state s) (live_points s)
                (log_L_live s) of
        (ts, live_L, live_X, live_w) \<Rightarrow>
          ebind (buffer (log_w s)) (\<lambda>b_w. dynamic_update_slice b_w live_w (num_dead s)))"

text \<open>
  Collaborators that are consistent with one another.  The likelihood has one value at
  the point \<open>1/2\<close> and another elsewhere; the generator draws every initial point at
  \<open>1/4\<close>; the sampler proposes the point \<open>1/2\<close>, evaluates the likelihood it was
  handed on the constrained value of that point, and returns the point with that value
  when it is strictly above the threshold.
\<close>

definition tophat_loglik :: "fl \<Rightarrow> fl \<Rightarrow> sample \<Rightarrow> lik_out" where
  "tophat_loglik lo hi x =
     (if map_of x ''x'' = Some [Fin (1 / 2)] then Scalar hi else Scalar lo)"

definition tophat_obj :: "fl \<Rightarrow> fl \<Rightarrow> NestedSampler" where
  "tophat_obj lo hi =
     \<lparr>sampler_name = ''slice'',
      loglikelihood = fixed_likelihood (tophat_loglik lo hi),
      prior_chain = example_prior_chain,
      loglikelihood_from_U =
        (\<lambda>U. fixed_likelihood (tophat_loglik lo hi) (pc_call example_prior_chain U)),
      marginalised = None,
      marginalised_shapes = None\<rparr>"

definition honest_sampler ::
  "nat \<Rightarrow> fl \<Rightarrow> (sample \<Rightarrow> error + fl) \<Rightarrow> PriorChain \<Rightarrow> (nat, unit) sampler_results option" where
  "honest_sampler k log_L_constraint loglik pc =
     (case loglik (pc_call pc [Fin (1 / 2)]) of
        Inl e \<Rightarrow> None
      | Inr v \<Rightarrow>
          if fl_lt log_L_constraint v
          then Some \<lparr>sr_key = Suc k, u_new = [Fin (1 / 2)], x_new = pc_call pc [Fin (1 / 2)],
                     log_L_new = v, sr_num_likelihood_evaluations = 1,
                     sr_sampler_state = ()\<rparr>
          else None)"

definition honest_env :: "(nat \<Rightarrow> fl) \<Rightarrow> (nat, unit, nat) env" where
  "honest_env E =
     (example_env E)
       \<lparr>random_uniform := (\<lambda>k m. replicate m (Fin (1 / 4))),
        slice_sampling := (\<lambda>k log_L_constraint U num_slices loglik pc i_min log_X ss.
                             honest_sampler k log_L_constraint loglik pc),
        multi_ellipsoid_sampler := (\<lambda>k log_L_constraint U loglik pc ss log_X i_min.
                                      honest_sampler k log_L_constraint loglik pc)\<rparr>"

text \<open>
  Two more evidence accessors for the example tracker: no evidence at all, and
  evidence from the second update on.
\<close>

definition null_evidence :: "nat \<Rightarrow> fl" where
  "null_evidence ts = NegInf"

definition late_evidence :: "nat \<Rightarrow> fl" where
  "late_evidence ts = (if ts < 2 then NegInf else Fin 0)"

text \<open>A field of the state in which a run ended, when it returned.\<close>

definition final_field ::
  "(('k, 'ss, 'ts) NestedSamplerState \<Rightarrow> 'a) \<Rightarrow> error + ('k, 'ss, 'ts) NestedSamplerState
     \<Rightarrow> 'a option" where
  "final_field f run = (case run of Inl e \<Rightarrow> None | Inr s \<Rightarrow> Some (f s))"

section \<open>Basic facts about the engine\<close>

lemma ebind_Inr_iff: "ebind m f = Inr y \<longleftrightarrow> (\<exists>x. m = Inr x \<and> f x = Inr y)"
  by (cases m) (simp_all add: ebind_def)

lemma ebind_Inr [simp]: "ebind (Inr x) f = f x"
  by (simp add: ebind_def)

lemma ebind_Inl [simp]: "ebind (Inl e) f = Inl e"
  by (simp add: ebind_def)

lemma record_dead_Inr:
  assumes "record_dead s cs dp X dw L = Inr s1"
  shows "\<exists>b_X log_X' b_w log_w' b_L log_L_dead' dp'.
           buffer (log_X s) = Inr b_X \<and> dynamic_update_slice b_X [X] (num_dead s) = Inr log_X'
         \<and> buffer (log_w s) = Inr b_w \<and> dynamic_update_slice b_w [dw] (num_dead s) = Inr log_w'
         \<and> buffer (log_L_dead s) = Inr b_L \<and> dynamic_update_slice b_L [L] (num_dead s) = Inr log_L_dead'
         \<and> s1 = s\<lparr>log_X := Some log_X', log_w := Some log_w', log_L_dead := Some log_L_dead',
                   dead_points := dp'\<rparr>"
proof -
  from assms obtain b_X log_X' b_w log_w' b_L log_L_dead' where
    h: "buffer (log_X s) = Inr b_X" "dynamic_update_slice b_X [X] (num_dead s) = Inr log_X'"
       "buffer (log_w s) = Inr b_w" "dynamic_update_slice b_w [dw] (num_dead s) = Inr log_w'"
       "buffer (log_L_dead s) = Inr b_L" "dynamic_update_slice b_L [L] (num_dead s) = Inr log_L_dead'"
    and r: "(let s1 = s\<lparr>log_X := Some log_X', log_w := Some log_w', log_L_dead := Some log_L_dead'\<rparr>
     in if cs then
          ebind (buffer (dead_points s1)) (\<lambda>b_d.
          ebind (dict_multimap2 (\<lambda>x y. dynamic_update_slice_row x y (num_dead s1)) b_d dp)
            (\<lambda>dead_points'. Inr (s1\<lparr>dead_points := Some dead_points'\<rparr>)))
        else Inr s1) = Inr s1"
    unfolding record_dead_def ebind_Inr_iff by blast
  show ?thesis
  proof (cases cs)
    case True
    with r obtain dps where "s1 = s\<lparr>log_X := Some log_X', log_w := Some log_w', log_L_dead := Some log_L_dead',
                   dead_points := Some dps\<rparr>"
      by (auto simp: ebind_Inr_iff Let_def)
    with h show ?thesis by blast
  next
    case False
    with r have "s1 = s\<lparr>log_X := Some log_X', log_w := Some log_w', log_L_dead := Some log_L_dead'\<rparr>"
      by (simp add: Let_def)
    then have "s1 = s\<lparr>log_X := Some log_X', log_w := Some log_w', log_L_dead := Some log_L_dead',
                   dead_points := dead_points s\<rparr>"
      by simp
    with h show ?thesis by blast
  qed
qed


lemma record_dead_frame:
  assumes "record_dead s cs dp X dw L = Inr s1"
  shows "iter_i s1 = iter_i s" "is_done s1 = is_done s" "status s1 = status s"
        "num_dead s1 = num_dead s" "log_L_live s1 = log_L_live s"
        "live_points s1 = live_points s" "live_points_U s1 = live_points_U s"
        "key s1 = key s" "sampler_state s1 = sampler_state s"
        "sampler_efficiency s1 = sampler_efficiency s"
        "num_likelihood_evaluations s1 = num_likelihood_evaluations s"
  using record_dead_Inr[OF assms] by auto

lemma one_step_Inr:
  assumes "one_step env self s cs om kw = Inr s'"
  shows "\<exists>i_min dead_point ts s1 r L' lp' lpU' s2.
      step_pre env self s cs om kw i_min dead_point ts s1
    \<and> call_sampler env self s1 kw (log_L_live s ! i_min) i_min
         (te_X_log_value (new_TrackedExpectation env (marginalised self) (marginalised_shapes self)) ts) = Inr r
    \<and> dynamic_update_slice (log_L_live s1) [log_L_new r] i_min = Inr L'
    \<and> dict_multimap2 (\<lambda>x y. dynamic_update_slice_row x y i_min) (live_points s1) (x_new r) = Inr lp'
    \<and> dynamic_update_slice_row (live_points_U s1) (u_new r) i_min = Inr lpU'
    \<and> (if \<not> om
            then ebind (buffer (sampler_efficiency s1)) (\<lambda>b_e.
                 ebind (dynamic_update_slice b_e
                          [fl_div_nat 1 (sr_num_likelihood_evaluations r)]
                          (num_dead s1)) (\<lambda>sampler_efficiency'.
                 Inr (s1\<lparr>sampler_efficiency := Some sampler_efficiency'\<rparr>)))
            else Inr s1) = Inr s2
    \<and> s' = s2\<lparr>key := sr_key r,
             num_likelihood_evaluations :=
               num_likelihood_evaluations s2 + sr_num_likelihood_evaluations r,
             log_L_live := L',
             live_points := lp',
             live_points_U := lpU',
             sampler_state := sr_sampler_state r,
             tracked_expectations_state := ts,
             num_dead := num_dead s2 + 1\<rparr>"
  using assms unfolding one_step_def ebind_Inr_iff Let_def step_pre_def
  by blast


lemma eff_update_frame:
  assumes "(if \<not> om
            then ebind (buffer (sampler_efficiency s1)) (\<lambda>b_e.
                 ebind (dynamic_update_slice b_e [v] (num_dead s1)) (\<lambda>sampler_efficiency'.
                 Inr (s1\<lparr>sampler_efficiency := Some sampler_efficiency'\<rparr>)))
            else Inr s1) = Inr s2"
  shows "\<exists>e. s2 = s1\<lparr>sampler_efficiency := e\<rparr>"
proof (cases om)
  case True
  with assms have "s2 = s1" by simp
  then have "s2 = s1\<lparr>sampler_efficiency := sampler_efficiency s1\<rparr>" by simp
  then show ?thesis by blast
next
  case False
  with assms show ?thesis by (auto simp: ebind_Inr_iff)
qed

lemma step_pre_frame:
  assumes "step_pre env self s cs om kw i_min dead_point ts s1"
  shows "iter_i s1 = iter_i s" "is_done s1 = is_done s" "status s1 = status s"
        "num_dead s1 = num_dead s" "log_L_live s1 = log_L_live s"
        "live_points s1 = live_points s" "live_points_U s1 = live_points_U s"
        "key s1 = key s" "sampler_state s1 = sampler_state s"
        "sampler_efficiency s1 = sampler_efficiency s"
        "num_likelihood_evaluations s1 = num_likelihood_evaluations s"
proof -
  have "iter_i s1 = iter_i s \<and> is_done s1 = is_done s \<and> status s1 = status s
      \<and> num_dead s1 = num_dead s \<and> log_L_live s1 = log_L_live s
      \<and> live_points s1 = live_points s \<and> live_points_U s1 = live_points_U s
      \<and> key s1 = key s \<and> sampler_state s1 = sampler_state s
      \<and> sampler_efficiency s1 = sampler_efficiency s
      \<and> num_likelihood_evaluations s1 = num_likelihood_evaluations s"
  proof (cases om)
    case True
    with assms have "s1 = s" unfolding step_pre_def by simp
    then show ?thesis by simp
  next
    case False
    with assms obtain X dw L where "record_dead s cs dead_point X dw L = Inr s1"
      unfolding step_pre_def by auto
    from record_dead_frame[OF this] show ?thesis by simp
  qed
  then show "iter_i s1 = iter_i s" "is_done s1 = is_done s" "status s1 = status s"
        "num_dead s1 = num_dead s" "log_L_live s1 = log_L_live s"
        "live_points s1 = live_points s" "live_points_U s1 = live_points_U s"
        "key s1 = key s" "sampler_state s1 = sampler_state s"
        "sampler_efficiency s1 = sampler_efficiency s"
        "num_likelihood_evaluations s1 = num_likelihood_evaluations s"
    by simp_all
qed

lemma one_step_frame_conj:
  assumes "one_step env self s cs om kw = Inr s'"
  shows "iter_i s' = iter_i s \<and> is_done s' = is_done s \<and> status s' = status s
       \<and> num_dead s' = num_dead s + 1"
proof -
  from one_step_Inr[OF assms] show ?thesis
  proof (elim exE conjE)
    fix i_min dead_point ts s1 r L' lp' lpU' s2
    assume pre: "step_pre env self s cs om kw i_min dead_point ts s1"
    and eff: "(if \<not> om
            then ebind (buffer (sampler_efficiency s1)) (\<lambda>b_e.
                 ebind (dynamic_update_slice b_e
                          [fl_div_nat 1 (sr_num_likelihood_evaluations r)]
                          (num_dead s1)) (\<lambda>sampler_efficiency'.
                 Inr (s1\<lparr>sampler_efficiency := Some sampler_efficiency'\<rparr>)))
            else Inr s1) = Inr s2"
    and s': "s' = s2\<lparr>key := sr_key r,
             num_likelihood_evaluations :=
               num_likelihood_evaluations s2 + sr_num_likelihood_evaluations r,
             log_L_live := L',
             live_points := lp',
             live_points_U := lpU',
             sampler_state := sr_sampler_state r,
             tracked_expectations_state := ts,
             num_dead := num_dead s2 + 1\<rparr>"
    from eff_update_frame[OF eff] obtain e where s2: "s2 = s1\<lparr>sampler_efficiency := e\<rparr>" ..
    show ?thesis
      using step_pre_frame(1-4)[OF pre] by (simp add: s' s2)
  qed
qed

lemma one_step_frame:
  assumes "one_step env self s cs om kw = Inr s'"
  shows "iter_i s' = iter_i s" "is_done s' = is_done s" "status s' = status s"
        "num_dead s' = num_dead s + 1"
  using one_step_frame_conj[OF assms] by simp_all

lemma body_Inr:
  assumes "body env self cs om kw tf ms s = Inr s'"
  shows "\<exists>s1. one_step env self s cs om kw = Inr s1
           \<and> s' = s1\<lparr>is_done := (fl_lt (logZ_live env self s1)
                  (fl_add (fl_log tf) (evidence_mean env self s1))
                \<or> ms \<le> int (iter_i s1 + 1)), iter_i := iter_i s1 + 1\<rparr>"
  using assms unfolding body_def ebind_Inr_iff Let_def by blast

lemma body_iter:
  assumes "body env self cs om kw tf ms s = Inr s'"
  shows "iter_i s' = iter_i s + 1" "\<not> is_done s' \<Longrightarrow> int (iter_i s') < ms"
proof -
  from body_Inr[OF assms] obtain s1 where
    s1: "one_step env self s cs om kw = Inr s1"
    and s': "s' = s1\<lparr>is_done := (fl_lt (logZ_live env self s1)
                  (fl_add (fl_log tf) (evidence_mean env self s1))
                \<or> ms \<le> int (iter_i s1 + 1)), iter_i := iter_i s1 + 1\<rparr>"
    by blast
  show "iter_i s' = iter_i s + 1" using one_step_frame(1)[OF s1] by (simp add: s')
  show "\<not> is_done s' \<Longrightarrow> int (iter_i s') < ms" by (simp add: s')
qed

lemma loop_measure_simp:
  "loop_measure (env, self, cs, om, kw, tf, ms, s) = (if is_done s then 0 else 1 + nat (ms - int (iter_i s)))"
  unfolding loop_measure_def prod.case ..

lemma loop_measure_decreases:
  assumes "\<not> is_done s" "body env self cs om kw tf ms s = Inr s'"
  shows "loop_measure (env, self, cs, om, kw, tf, ms, s') < loop_measure (env, self, cs, om, kw, tf, ms, s)"
proof -
  have a: "iter_i s' = iter_i s + 1" using assms(2) by (rule body_iter(1))
  have b: "\<not> is_done s' \<Longrightarrow> int (iter_i s') < ms" using assms(2) by (rule body_iter(2))
  show ?thesis
  proof (cases "is_done s'")
    case True
    then show ?thesis unfolding loop_measure_simp using assms(1) by simp
  next
    case False
    have "int (iter_i s) + 1 < ms" using b[OF False] a by simp
    then have "nat (ms - int (iter_i s')) < nat (ms - int (iter_i s))" using a by simp
    then show ?thesis unfolding loop_measure_simp using assms(1) False by simp
  qed
qed

termination while_loop
  apply (relation "measure loop_measure")
   apply simp
  apply (simp only: in_measure)
  apply (erule (1) loop_measure_decreases)
  done


section \<open>Prior transforms\<close>

text \<open>
  C9: \<open>UniformPrior\<close> with \<open>low = 0\<close> and \<open>high = 10\<close> has one uniform dimension
  and maps the uniform input \<open>0.5\<close> to \<open>5.0\<close>; \<open>DeltaPrior\<close> with value \<open>3.0\<close>
  returns \<open>3.0\<close> for every uniform input and has uniform dimensionality zero.  The
  values are arrays of one element, as \<open>jnp.atleast_1d\<close> makes them.
\<close>

theorem uniform_and_delta_values:
  "(\<exists>p low high.
      UniformPrior_init nm (PyScalar (Fin 0)) (PyScalar (Fin 10)) trk = Inr (p, low, high)
    \<and> U_ndims (up_base p) = 1
    \<and> UniformPrior_forward p [Fin (1 / 2)] (DeltaPrior_forward low []) (DeltaPrior_forward high [])
        = Inr [Fin 5])
   \<and> (\<forall>U. DeltaPrior_forward (DeltaPrior_init nm' (PyScalar (Fin 3)) trk') U = [Fin 3])
   \<and> U_ndims (dp_base (DeltaPrior_init nm' (PyScalar (Fin 3)) trk')) = 0"
  by (simp add: UniformPrior_init_def DeltaPrior_init_def DeltaPrior_to_shape_def
      DeltaPrior_forward_def UniformPrior_forward_def UniformPrior_to_shape_def reshape_def
      tuple_prod_def fl_sub_def Let_def)

section \<open>The wrapped likelihood\<close>

text \<open>
  C4, as stated, fails: a likelihood value of \<open>+inf\<close> is not coerced, since the
  wrapper tests \<open>jnp.isnan\<close> only.
\<close>

theorem fixed_likelihood_posinf_counterexample:
  "fixed_likelihood (const_loglik (Scalar PosInf)) [] \<noteq> Inr NegInf"
  by (simp add: const_loglik_def)

text \<open>
  C4, amended: for a scalar output the wrapped likelihood raises nothing; it returns
  \<open>-inf\<close> for NaN and for \<open>-inf\<close>, and every other value, \<open>+inf\<close> included,
  unchanged.
\<close>

theorem fixed_likelihood_values:
  assumes "loglik x = Scalar v"
  shows "fixed_likelihood loglik x =
           Inr (case v of NaN \<Rightarrow> NegInf | NegInf \<Rightarrow> NegInf | PosInf \<Rightarrow> PosInf | Fin r \<Rightarrow> Fin r)"
  using assms by (cases v) simp_all

theorem fixed_likelihood_values_witness:
  "fixed_likelihood (const_loglik (Scalar NaN)) [] = Inr NegInf"
  using fixed_likelihood_values[of "const_loglik (Scalar NaN)" "[]" NaN]
  by (simp add: const_loglik_def)

section \<open>Evaluation of the example inputs\<close>

lemmas example_defs = example_env_def example_sampler_obj_def example_prior_chain_def
  example_tracker_def example_sampler_def const_loglik_def no_evidence_def growing_evidence_def

lemmas eval_defs = initial_state_def unpack2_def single_sample_def allocate_def kwargs_get_def
  of_option_def Let_def upt_rec one_step_def record_dead_def call_sampler_def buffer_def
  dynamic_update_slice_def dynamic_update_slice_row_def dict_multimap_def dict_multimap2_def
  row_at_def body_def logZ_live_def evidence_mean_def logsumexp_def fl_sum_def fl_max_list_def
  fl_maximum_def fl_sub_def fl_div_nat_def final_state_def numeral_3_eq_3 numeral_2_eq_2


lemmas honest_defs = honest_env_def honest_sampler_def tophat_obj_def tophat_loglik_def
  null_evidence_def late_evidence_def final_field_def

lemma one_plus_exp_simps:
  "(1 + exp (x::real) < 0) = False" "(1 + exp x \<le> 0) = False" "(1 + exp x = 0) = False"
  "(exp x + 1 < 0) = False" "(exp x + 1 \<le> 0) = False" "(exp x + 1 = 0) = False"
proof -
  have "0 < 1 + exp x" by (simp add: add_pos_pos)
  then show "(1 + exp (x::real) < 0) = False" "(1 + exp x \<le> 0) = False" "(1 + exp x = 0) = False"
  "(exp x + 1 < 0) = False" "(exp x + 1 \<le> 0) = False" "(exp x + 1 = 0) = False"
    by simp_all
qed

section \<open>The Categorical prior\<close>

lemma argmax_from_less:
  "best < j \<Longrightarrow> argmax_from best b j xs < j + length xs"
proof (induction xs arbitrary: best b j)
  case Nil
  then show ?case by simp
next
  case (Cons x xs)
  have a: "argmax_from j x (Suc j) xs < Suc j + length xs"
    by (rule Cons.IH) simp
  have b: "argmax_from best b (Suc j) xs < Suc j + length xs"
    by (rule Cons.IH) (use Cons.prems in simp)
  show ?case using a b by simp
qed

lemma argmax_index:
  assumes "xs \<noteq> []"
  shows "\<exists>k. argmax xs = Inr k \<and> k < length xs"
proof (cases xs)
  case Nil
  with assms show ?thesis by simp
next
  case (Cons x ys)
  have "argmax_from 0 x 1 ys < 1 + length ys" by (rule argmax_from_less) simp
  with Cons show ?thesis by simp
qed

lemma broadcast2_same_length:
  assumes "length xs = length ys"
  shows "\<exists>zs. broadcast2 f xs ys = Inr zs \<and> length zs = length xs"
  using assms by (induction f xs ys rule: broadcast2.induct) auto

lemma finfo_eps_range: "0 < finfo_eps dt \<and> finfo_eps dt < 1"
  by (cases dt) simp_all

lemma Gumbel_component_finite:
  assumes "0 \<le> r" "r < 1"
  shows "isfinite (Gumbel_component dt (Fin r))"
proof -
  define m where "m = (if r < finfo_eps dt then finfo_eps dt else r)"
  have m: "0 < m" "m < 1"
    using assms finfo_eps_range[of dt] by (auto simp: m_def)
  have mx: "fl_maximum (Fin r) (Fin (finfo_eps dt)) = Fin m"
    by (simp add: fl_maximum_def m_def)
  have "ln m < 0" using m by simp
  then show ?thesis
    using m unfolding Gumbel_component_def mx by simp
qed

text \<open>At exactly 1 the noise is \<open>+inf\<close>; the index is returned all the same.\<close>

lemma Gumbel_component_one: "Gumbel_component dt (Fin 1) = PosInf"
  using finfo_eps_range[of dt] by (simp add: Gumbel_component_def fl_maximum_def)

text \<open>
  C8: for every uniform input with components in the closed interval from 0 to 1, the
  Categorical forward map over a non-empty vector of logits returns one category index
  below the number of logits, an integer and so a finite output.  The Gumbel noise of a
  component other than 1 is finite, at exactly 0 as well, since the input is clamped to
  the machine epsilon before the two logarithms.
\<close>

theorem categorical_forward_finite:
  assumes "logits \<noteq> []" and "length U = length logits"
    and "\<forall>u\<in>set U. \<exists>r. u = Fin r \<and> 0 \<le> r \<and> r \<le> 1"
  shows "(\<exists>k. Categorical_chain dt U U_own logits = Inr [k] \<and> k < length logits)
       \<and> (\<forall>i<length U. U ! i \<noteq> Fin 1 \<longrightarrow> isfinite (Gumbel_forward dt U ! i))"
proof
  have "length logits = length (Gumbel_forward dt U)"
    using assms(2) by (simp add: Gumbel_forward_def)
  from broadcast2_same_length[OF this] obtain zs where
    zs: "broadcast2 fl_add logits (Gumbel_forward dt U) = Inr zs" "length zs = length logits"
    by blast
  with assms(1) have "zs \<noteq> []" by auto
  from argmax_index[OF this] obtain k where "argmax zs = Inr k" "k < length zs" by blast
  with zs show "\<exists>k. Categorical_chain dt U U_own logits = Inr [k] \<and> k < length logits"
    by (simp add: Categorical_chain_def CategoricalPrior_forward_def)
next
  show "\<forall>i<length U. U ! i \<noteq> Fin 1 \<longrightarrow> isfinite (Gumbel_forward dt U ! i)"
  proof (intro allI impI)
    fix i assume i: "i < length U" and ne: "U ! i \<noteq> Fin 1"
    from i assms(3) obtain r where r: "U ! i = Fin r" "0 \<le> r" "r \<le> 1"
      using nth_mem by blast
    with ne have "r < 1" by simp
    from Gumbel_component_finite[OF r(2) this] show "isfinite (Gumbel_forward dt U ! i)"
      using i r(1) by (simp add: Gumbel_forward_def)
  qed
qed

theorem categorical_forward_finite_witness:
  "(\<exists>k. Categorical_chain Float64 [Fin 0, Fin 1] [] [Fin 0, Fin 0] = Inr [k] \<and> k < 2)
   \<and> isfinite (Gumbel_forward Float64 [Fin 0, Fin 1] ! 0)"
proof -
  have h: "\<forall>u\<in>set [Fin 0, Fin 1]. \<exists>r. u = Fin r \<and> 0 \<le> r \<and> r \<le> 1" by simp
  have "(\<exists>k. Categorical_chain Float64 [Fin 0, Fin 1] [] [Fin 0, Fin 0] = Inr [k]
            \<and> k < length [Fin 0, Fin 0 :: fl])
       \<and> (\<forall>i<length [Fin 0, Fin 1 :: fl]. [Fin 0, Fin 1] ! i \<noteq> Fin 1
             \<longrightarrow> isfinite (Gumbel_forward Float64 [Fin 0, Fin 1] ! i))"
    by (rule categorical_forward_finite[OF _ _ h]) simp_all
  then have k: "\<exists>k. Categorical_chain Float64 [Fin 0, Fin 1] [] [Fin 0, Fin 0] = Inr [k] \<and> k < 2"
    and g: "\<forall>i<length [Fin 0, Fin 1 :: fl]. [Fin 0, Fin 1] ! i \<noteq> Fin 1
             \<longrightarrow> isfinite (Gumbel_forward Float64 [Fin 0, Fin 1] ! i)"
    by (simp_all add: numeral_2_eq_2)
  from g have "isfinite (Gumbel_forward Float64 [Fin 0, Fin 1] ! 0)"
    by (drule_tac x = 0 in spec) simp
  with k show ?thesis by blast
qed


section \<open>The shape check of the likelihood\<close>

lemma sequence_err_first_Inl:
  "sequence_err (Inl e # ms) = Inl e"
  by simp

text \<open>
  C7, as stated, fails: the construction of a sampler around a likelihood of shape
  \<open>(2,)\<close> raises nothing; \<open>__init__\<close> defines the wrapped likelihood and does
  not call it.
\<close>

theorem nonscalar_likelihood_not_raised_at_construction_counterexample:
  "\<not> isl (NestedSampler_init (const_loglik (NonScalar [2])) example_prior_chain ''slice'' [])"
  by (simp add: NestedSampler_init_def available_samplers_def Let_def)

text \<open>
  C7, amended: with a likelihood whose output is not a scalar, the construction
  succeeds (for an available sampler name), and every run call with at least one live
  point raises the \<open>ValueError\<close> in \<open>initial_state\<close>, at the first evaluation of the
  likelihood and before any iteration of the loop.
\<close>

theorem nonscalar_likelihood_raises_in_initial_state:
  assumes "sname \<in> set available_samplers"
    and "\<And>x. loglik x = NonScalar shp"
    and "\<And>k n. length (random_split env k n) = n"
    and "0 < N"
  shows "\<exists>self. NestedSampler_init loglik pc sname marg = Inr self
           \<and> initial_state env self key0 N ms cs om kw
               = Inl (ValueError ''Shape of likelihood should be scalar'')
           \<and> NestedSampler_call env self key0 N ms cs tf om kwo
               = Inl (ValueError ''Shape of likelihood should be scalar'')"
proof -
  obtain self where self: "NestedSampler_init loglik pc sname marg = Inr self"
    and lik: "loglikelihood self = fixed_likelihood loglik"
    using assms(1) by (simp add: NestedSampler_init_def Let_def)
  have fl: "\<And>x. fixed_likelihood loglik x = Inl (ValueError ''Shape of likelihood should be scalar'')"
    by (simp add: assms(2))
  have init: "initial_state env self k N ms cs om kw'
               = Inl (ValueError ''Shape of likelihood should be scalar'')" for k kw'
  proof -
    obtain a b where ab: "random_split env k 2 = [a, b]"
      using assms(3)[of k 2] by (auto simp: length_Suc_conv numeral_2_eq_2)
    obtain c cs' where c: "random_split env b N = c # cs'"
      using assms(3)[of b N] assms(4) by (cases "random_split env b N") auto
    have "single_sample env self c = Inl (ValueError ''Shape of likelihood should be scalar'')"
      by (simp add: single_sample_def lik assms(2) Let_def)
    then show ?thesis
      by (simp add: initial_state_def ab unpack2_def c)
  qed
  have "NestedSampler_call env self key0 N ms cs tf om kwo
               = Inl (ValueError ''Shape of likelihood should be scalar'')"
    by (simp add: NestedSampler_call_def final_state_def init Let_def)
  with self init show ?thesis by blast
qed

theorem nonscalar_likelihood_raises_in_initial_state_witness:
  "\<exists>self. NestedSampler_init (const_loglik (NonScalar [2])) example_prior_chain ''slice'' [] = Inr self
           \<and> initial_state (example_env no_evidence) self 0 1 3 False False []
               = Inl (ValueError ''Shape of likelihood should be scalar'')
           \<and> NestedSampler_call (example_env no_evidence) self 0 1 3 False (Fin 1) False None
               = Inl (ValueError ''Shape of likelihood should be scalar'')"
  using nonscalar_likelihood_raises_in_initial_state[of "''slice''" "const_loglik (NonScalar [2])" "[2]"
      "example_env no_evidence" 1 example_prior_chain "[]" 0 3 False False "[]" "Fin 1" None]
  by (simp add: available_samplers_def const_loglik_def example_env_def)

section \<open>Facts about floats and arrays\<close>

subsection \<open>Order of the floats\<close>

lemma fl_le_refl: "\<not> isnan a \<Longrightarrow> fl_le a a"
  by (cases a) simp_all

lemma fl_lt_imp_le: "fl_lt a b \<Longrightarrow> fl_le a b"
  by (cases a; cases b) simp_all

lemma fl_lt_not_nan: "fl_lt a b \<Longrightarrow> \<not> isnan a \<and> \<not> isnan b"
  by (cases a; cases b) simp_all

lemma fl_le_not_nan: "fl_le a b \<Longrightarrow> \<not> isnan a \<and> \<not> isnan b"
  by (cases a; cases b) simp_all

lemma fl_not_lt_imp_le: "\<not> fl_lt a b \<Longrightarrow> \<not> isnan a \<Longrightarrow> \<not> isnan b \<Longrightarrow> fl_le b a"
  by (cases a; cases b) simp_all

lemma fl_le_trans: "fl_le a b \<Longrightarrow> fl_le b c \<Longrightarrow> fl_le a c"
  by (cases a; cases b; cases c) simp_all

lemma fl_lt_le_trans: "fl_lt a b \<Longrightarrow> fl_le b c \<Longrightarrow> fl_lt a c"
  by (cases a; cases b; cases c) simp_all

lemma fl_le_lt_trans: "fl_le a b \<Longrightarrow> fl_lt b c \<Longrightarrow> fl_lt a c"
  by (cases a; cases b; cases c) simp_all

subsection \<open>argmin\<close>

lemma argmin_from_first_min:
  assumes "\<forall>y\<in>set ys. \<not> isnan y" and "is_first_min ys best j"
  shows "is_first_min ys (argmin_from best (ys ! best) j (drop j ys)) (length ys)"
  using assms(2)
proof (induction "length ys - j" arbitrary: best j)
  case 0
  then have "j = length ys" by (simp add: is_first_min_def)
  with 0 show ?case by simp
next
  case (Suc n)
  then have j: "j < length ys" by simp
  have best: "best < j" using Suc.prems by (simp add: is_first_min_def)
  have d: "drop j ys = ys ! j # drop (Suc j) ys"
    using j by (simp add: Cons_nth_drop_Suc)
  have nn: "\<not> isnan (ys ! j)" "\<not> isnan (ys ! best)"
    using assms(1) j best by simp_all
  have n: "n = length ys - Suc j" using Suc.hyps(2) by simp
  show ?case
  proof (cases "fl_lt (ys ! j) (ys ! best)")
    case True
    have "is_first_min ys j (Suc j)"
      unfolding is_first_min_def
    proof (intro conjI allI impI)
      show "j < Suc j" by simp
      show "Suc j \<le> length ys" using j by simp
    next
      fix i assume "i < Suc j"
      then consider "i < j" | "i = j" by linarith
      then show "fl_le (ys ! j) (ys ! i)"
      proof cases
        case 1
        then have "fl_le (ys ! best) (ys ! i)" using Suc.prems by (simp add: is_first_min_def)
        with True show ?thesis using fl_lt_le_trans fl_lt_imp_le by blast
      next
        case 2
        then show ?thesis using nn(1) by (simp add: fl_le_refl)
      qed
    next
      fix i assume "i < j"
      then have "fl_le (ys ! best) (ys ! i)" using Suc.prems by (simp add: is_first_min_def)
      with True show "fl_lt (ys ! j) (ys ! i)" using fl_lt_le_trans by blast
    qed
    from Suc.hyps(1)[OF n this] show ?thesis using True nn by (simp add: d)
  next
    case False
    then have le: "fl_le (ys ! best) (ys ! j)" using nn by (simp add: fl_not_lt_imp_le)
    have "is_first_min ys best (Suc j)"
      unfolding is_first_min_def
    proof (intro conjI allI impI)
      show "best < Suc j" using best by simp
      show "Suc j \<le> length ys" using j by simp
    next
      fix i assume "i < Suc j"
      then consider "i < j" | "i = j" by linarith
      then show "fl_le (ys ! best) (ys ! i)"
      proof cases
        case 1
        then show ?thesis using Suc.prems by (simp add: is_first_min_def)
      next
        case 2
        then show ?thesis using le by simp
      qed
    next
      fix i assume "i < best"
      then show "fl_lt (ys ! best) (ys ! i)" using Suc.prems by (simp add: is_first_min_def)
    qed
    from Suc.hyps(1)[OF n this] show ?thesis using False nn by (simp add: d)
  qed
qed

lemma argmin_first_min:
  assumes "argmin ys = Inr i_min" and "\<forall>y\<in>set ys. \<not> isnan y"
  shows "i_min < length ys
       \<and> (\<forall>j<length ys. fl_le (ys ! i_min) (ys ! j))
       \<and> (\<forall>j<i_min. fl_lt (ys ! i_min) (ys ! j))"
proof (cases ys)
  case Nil
  with assms(1) show ?thesis by simp
next
  case (Cons x xs)
  have "\<not> isnan x" using assms(2) Cons by simp
  then have "is_first_min ys 0 1" by (simp add: is_first_min_def Cons fl_le_refl)
  from argmin_from_first_min[OF assms(2) this]
  have "is_first_min ys (argmin_from 0 x 1 xs) (length ys)" by (simp add: Cons)
  moreover have "i_min = argmin_from 0 x 1 xs" using assms(1) Cons by simp
  ultimately show ?thesis by (simp add: is_first_min_def)
qed

lemma argmin_from_less:
  "best < j \<Longrightarrow> argmin_from best b j xs < j + length xs"
proof (induction xs arbitrary: best b j)
  case Nil
  then show ?case by simp
next
  case (Cons x xs)
  have a: "argmin_from j x (Suc j) xs < Suc j + length xs"
    by (rule Cons.IH) simp
  have b: "argmin_from best b (Suc j) xs < Suc j + length xs"
    by (rule Cons.IH) (use Cons.prems in simp)
  show ?case using a b by simp
qed

lemma argmin_less:
  assumes "argmin ys = Inr i_min"
  shows "i_min < length ys"
proof (cases ys)
  case Nil
  with assms show ?thesis by simp
next
  case (Cons x xs)
  have "argmin_from 0 x 1 xs < 1 + length xs" by (rule argmin_from_less) simp
  with Cons assms show ?thesis by simp
qed

subsection \<open>Array updates\<close>

lemma dynamic_update_slice_single:
  assumes "dynamic_update_slice xs [v] i = Inr ys" and "i < length xs"
  shows "ys = xs[i := v]"
proof -
  have "min i (length xs - 1) = i" using assms(2) by simp
  with assms have "ys = take i xs @ [v] @ drop (Suc i) xs"
    by (simp add: dynamic_update_slice_def Let_def split: if_splits)
  then show ?thesis using assms(2) by (simp add: upd_conv_take_nth_drop)
qed

lemma dynamic_update_slice_row_at:
  assumes "dynamic_update_slice_row xs y i = Inr ys" and "i < length xs"
  shows "ys = xs[i := overwrite_row y (xs ! i)]"
proof (cases xs)
  case Nil
  with assms(2) show ?thesis by simp
next
  case (Cons r rs)
  have "min i (length xs - 1) = i" using assms(2) by simp
  with assms(1) Cons show ?thesis
    by (simp add: dynamic_update_slice_row_def overwrite_row_def Let_def split: if_splits)
qed

lemma sequence_err_Inr:
  "sequence_err ms = Inr xs \<Longrightarrow> list_all2 (\<lambda>m x. m = Inr x) ms xs"
proof (induction ms arbitrary: xs)
  case Nil
  then show ?case by simp
next
  case (Cons m ms)
  then show ?case by (auto split: sum.splits)
qed

lemma dict_multimap2_Inr:
  assumes "dict_multimap2 f d e = Inr res"
  shows "list_all2 (\<lambda>kx kv. fst kv = fst kx
            \<and> (\<exists>y. map_of e (fst kx) = Some y \<and> f (snd kx) y = Inr (snd kv))) d res"
proof -
  from assms have "list_all2 (\<lambda>m x. m = Inr x)
      (map (\<lambda>(k, x). ebind (of_option (KeyError k) (map_of e k)) (\<lambda>y.
        ebind (f x y) (\<lambda>v. Inr (k, v)))) d) res"
    unfolding dict_multimap2_def by (rule sequence_err_Inr)
  then have "list_all2 (\<lambda>kx kv. (case kx of (k, x) \<Rightarrow>
        ebind (of_option (KeyError k) (map_of e k)) (\<lambda>y.
        ebind (f x y) (\<lambda>v. Inr (k, v)))) = Inr kv) d res"
    by (simp add: list_all2_map1)
  then show ?thesis
  proof (rule list_all2_mono)
    fix kx kv
    assume h: "(case kx of (k, x) \<Rightarrow>
        ebind (of_option (KeyError k) (map_of e k)) (\<lambda>y.
        ebind (f x y) (\<lambda>v. Inr (k, v)))) = Inr kv"
    obtain k x where kx: "kx = (k, x)" by (cases kx)
    from h obtain y v where "of_option (KeyError k) (map_of e k) = Inr y" "f x y = Inr v" "kv = (k, v)"
      unfolding kx prod.case ebind_Inr_iff by auto
    then show "fst kv = fst kx \<and> (\<exists>y. map_of e (fst kx) = Some y \<and> f (snd kx) y = Inr (snd kv))"
      by (auto simp: kx of_option_def split: option.splits)
  qed
qed


lemma list_all2_update_rows:
  assumes "list_all2 (\<lambda>kx kv. fst kv = fst kx
            \<and> (\<exists>y. map_of e (fst kx) = Some y
                  \<and> dynamic_update_slice_row (snd kx) y i = Inr (snd kv))) d res"
    and "\<forall>kx\<in>set d. length (snd kx) = n" and "i < n"
  shows "list_all2 (\<lambda>kx kv. fst kv = fst kx
            \<and> (\<exists>y. map_of e (fst kx) = Some y
                  \<and> snd kv = (snd kx)[i := overwrite_row y (snd kx ! i)])) d res
       \<and> (\<forall>kv\<in>set res. length (snd kv) = n)"
  using assms
proof (induction d res rule: list_all2_induct)
  case Nil
  then show ?case by simp
next
  case (Cons kx d kv res)
  from Cons.hyps(1) obtain y where k: "fst kv = fst kx" and y: "map_of e (fst kx) = Some y"
    and u: "dynamic_update_slice_row (snd kx) y i = Inr (snd kv)" by blast
  have len: "length (snd kx) = n" using Cons.prems(1) by simp
  have v: "snd kv = (snd kx)[i := overwrite_row y (snd kx ! i)]"
    using dynamic_update_slice_row_at[OF u] len Cons.prems(2) by simp
  have ih: "list_all2 (\<lambda>kx kv. fst kv = fst kx
            \<and> (\<exists>y. map_of e (fst kx) = Some y
                  \<and> snd kv = (snd kx)[i := overwrite_row y (snd kx ! i)])) d res
       \<and> (\<forall>kv\<in>set res. length (snd kv) = n)"
    using Cons.IH Cons.prems by simp
  have "length (snd kv) = n" using v len by simp
  with k y v ih show ?case by auto
qed

section \<open>One step changes one live entry\<close>

lemma one_step_live_update:
  assumes "one_step env self s cs om kw = Inr s'"
    and "live_wf s"
    and "\<forall>x\<in>set (log_L_live s). \<not> isnan x"
  shows "\<exists>i_min s1 X r.
       i_min < length (log_L_live s)
     \<and> (\<forall>j<length (log_L_live s). fl_le (log_L_live s ! i_min) (log_L_live s ! j))
     \<and> (\<forall>j<i_min. fl_lt (log_L_live s ! i_min) (log_L_live s ! j))
     \<and> call_sampler env self s1 kw (log_L_live s ! i_min) i_min X = Inr r
     \<and> live_points_U s1 = live_points_U s \<and> key s1 = key s \<and> sampler_state s1 = sampler_state s
     \<and> log_L_live s' = (log_L_live s)[i_min := log_L_new r]
     \<and> live_points_U s' = (live_points_U s)[i_min := overwrite_row (u_new r) (live_points_U s ! i_min)]
     \<and> list_all2 (\<lambda>kx kx'. fst kx' = fst kx
            \<and> (\<exists>y. map_of (x_new r) (fst kx) = Some y
                  \<and> snd kx' = (snd kx)[i_min := overwrite_row y (snd kx ! i_min)]))
          (live_points s) (live_points s')
     \<and> live_wf s'"
proof -
  from one_step_Inr[OF assms(1)] show ?thesis
  proof (elim exE conjE)
    fix i_min dead_point ts s1 r L' lp' lpU' s2
    assume pre: "step_pre env self s cs om kw i_min dead_point ts s1"
      and call: "call_sampler env self s1 kw (log_L_live s ! i_min) i_min
         (te_X_log_value (new_TrackedExpectation env (marginalised self) (marginalised_shapes self)) ts) = Inr r"
      and L': "dynamic_update_slice (log_L_live s1) [log_L_new r] i_min = Inr L'"
      and lp': "dict_multimap2 (\<lambda>x y. dynamic_update_slice_row x y i_min) (live_points s1) (x_new r) = Inr lp'"
      and lpU': "dynamic_update_slice_row (live_points_U s1) (u_new r) i_min = Inr lpU'"
      and s': "s' = s2\<lparr>key := sr_key r,
             num_likelihood_evaluations :=
               num_likelihood_evaluations s2 + sr_num_likelihood_evaluations r,
             log_L_live := L',
             live_points := lp',
             live_points_U := lpU',
             sampler_state := sr_sampler_state r,
             tracked_expectations_state := ts,
             num_dead := num_dead s2 + 1\<rparr>"
    note fr = step_pre_frame[OF pre]
    have am: "argmin (log_L_live s) = Inr i_min" using pre by (simp add: step_pre_def)
    from argmin_first_min[OF am assms(3)]
    have i: "i_min < length (log_L_live s)"
      and mn: "\<forall>j<length (log_L_live s). fl_le (log_L_live s ! i_min) (log_L_live s ! j)"
      and fst: "\<forall>j<i_min. fl_lt (log_L_live s ! i_min) (log_L_live s ! j)"
      by simp_all
    have lenU: "length (live_points_U s) = length (log_L_live s)"
      and lenP: "\<forall>kx\<in>set (live_points s). length (snd kx) = length (log_L_live s)"
      using assms(2) by (simp_all add: live_wf_def)
    have 1: "L' = (log_L_live s)[i_min := log_L_new r]"
      using dynamic_update_slice_single[OF L'] i fr(5) by simp
    have 2: "lpU' = (live_points_U s)[i_min := overwrite_row (u_new r) (live_points_U s ! i_min)]"
      using dynamic_update_slice_row_at[OF lpU'] i lenU fr(7) by simp
    have 3: "list_all2 (\<lambda>kx kx'. fst kx' = fst kx
            \<and> (\<exists>y. map_of (x_new r) (fst kx) = Some y
                  \<and> snd kx' = (snd kx)[i_min := overwrite_row y (snd kx ! i_min)]))
          (live_points s) lp'
       \<and> (\<forall>kv\<in>set lp'. length (snd kv) = length (log_L_live s))"
      using list_all2_update_rows[OF dict_multimap2_Inr[OF lp'[unfolded fr(6)]] lenP i] .
    have e1: "log_L_live s' = L'" and e2: "live_points_U s' = lpU'" and e3: "live_points s' = lp'"
      by (simp_all add: s')
    have wf: "live_wf s'"
      unfolding live_wf_def e1 e2 e3 using 1 2 3 lenU by simp
    show ?thesis
      apply (rule exI[of _ i_min], rule exI[of _ s1], rule exI, rule exI[of _ r])
      unfolding e1 e2 e3
      using i mn fst call fr(7,8,9) 1 2 3 wf by (intro conjI) simp_all
  qed
qed

text \<open>
  C6: in a state whose live set is indexed in parallel and whose live log-likelihoods
  hold no NaN, a step that returns picks the first index \<open>i_min\<close> of the minimum live
  log-likelihood, calls the sampler with that minimum as threshold, and writes the
  sampler's point at \<open>i_min\<close> in the log-likelihoods, the uniform coordinates and
  every array of constrained values.  Each of them is the old array updated at
  \<open>i_min\<close> only, so the number of entries stays the same, every other entry is
  unchanged, and the live set is again indexed in parallel.
\<close>

theorem one_step_overwrites_one_live_entry:
  assumes "one_step env self s cs om kw = Inr s'"
    and "live_wf s"
    and "\<forall>x\<in>set (log_L_live s). \<not> isnan x"
  shows "\<exists>i_min s1 X r.
       i_min < length (log_L_live s)
     \<and> (\<forall>j<length (log_L_live s). fl_le (log_L_live s ! i_min) (log_L_live s ! j))
     \<and> (\<forall>j<i_min. fl_lt (log_L_live s ! i_min) (log_L_live s ! j))
     \<and> call_sampler env self s1 kw (log_L_live s ! i_min) i_min X = Inr r
     \<and> live_points_U s1 = live_points_U s \<and> key s1 = key s \<and> sampler_state s1 = sampler_state s
     \<and> log_L_live s' = (log_L_live s)[i_min := log_L_new r]
     \<and> live_points_U s' = (live_points_U s)[i_min := overwrite_row (u_new r) (live_points_U s ! i_min)]
     \<and> list_all2 (\<lambda>kx kx'. fst kx' = fst kx
            \<and> (\<exists>y. map_of (x_new r) (fst kx) = Some y
                  \<and> snd kx' = (snd kx)[i_min := overwrite_row y (snd kx ! i_min)]))
          (live_points s) (live_points s')
     \<and> live_wf s'"
  using assms by (rule one_step_live_update)

theorem one_step_overwrites_one_live_entry_witness:
  "\<exists>s'. one_step (example_env no_evidence) (example_sampler_obj (Scalar (Fin 0)))
           \<lparr>key = 0, is_done = False, iter_i = 0, num_likelihood_evaluations = 2,
            live_points_U = [[Fin (1 / 4)], [Fin (3 / 4)]],
            live_points = [(''x'', [[Fin (1 / 4)], [Fin (3 / 4)]])],
            log_L_live = [Fin 2, Fin 1],
            dead_points = None, log_X = None, log_w = None, num_dead = 0, log_L_dead = None,
            sampler_efficiency = None, status = 0, sampler_state = (),
            tracked_expectations_state = 0\<rparr> False True [] = Inr s'
        \<and> log_L_live s' = [Fin 2, Fin 2]
        \<and> live_points_U s' = [[Fin (1 / 4)], [Fin (1 / 2)]]
        \<and> live_points s' = [(''x'', [[Fin (1 / 4)], [Fin (1 / 2)]])]"
proof -
  define s :: "(nat, unit, nat) NestedSamplerState" where "s =
           \<lparr>key = 0, is_done = False, iter_i = 0, num_likelihood_evaluations = 2,
            live_points_U = [[Fin (1 / 4)], [Fin (3 / 4)]],
            live_points = [(''x'', [[Fin (1 / 4)], [Fin (3 / 4)]])],
            log_L_live = [Fin 2, Fin 1],
            dead_points = None, log_X = None, log_w = None, num_dead = 0, log_L_dead = None,
            sampler_efficiency = None, status = 0, sampler_state = (),
            tracked_expectations_state = 0\<rparr>"
  obtain s' where st: "one_step (example_env no_evidence) (example_sampler_obj (Scalar (Fin 0)))
      s False True [] = Inr s'"
    and v: "log_L_live s' = [Fin 2, Fin 2]" "live_points_U s' = [[Fin (1 / 4)], [Fin (1 / 2)]]"
      "live_points s' = [(''x'', [[Fin (1 / 4)], [Fin (1 / 2)]])]"
    by (simp add: s_def eval_defs example_defs)
  have wf: "live_wf s" by (simp add: s_def live_wf_def)
  have nn: "\<forall>x\<in>set (log_L_live s). \<not> isnan x" by (simp add: s_def)
  from one_step_overwrites_one_live_entry[OF st wf nn] have "live_wf s'" by blast
  with st v show ?thesis unfolding s_def by blast
qed

section \<open>Facts about the loop\<close>

lemma body_done_flag:
  assumes "body env self cs om kw tf ms s = Inr s'"
  shows "is_done s' = (converged env self tf s' \<or> ms \<le> int (iter_i s'))"
    and "iter_i s' = iter_i s + 1"
    and "status s' = status s"
proof -
  from body_Inr[OF assms] obtain s1 where
    s1: "one_step env self s cs om kw = Inr s1"
    and s': "s' = s1\<lparr>is_done := (fl_lt (logZ_live env self s1)
                  (fl_add (fl_log tf) (evidence_mean env self s1))
                \<or> ms \<le> int (iter_i s1 + 1)), iter_i := iter_i s1 + 1\<rparr>"
    by blast
  show "is_done s' = (converged env self tf s' \<or> ms \<le> int (iter_i s'))"
    by (simp add: s' converged_def logZ_live_def evidence_mean_def)
  show "iter_i s' = iter_i s + 1" using one_step_frame(1)[OF s1] by (simp add: s')
  show "status s' = status s" using one_step_frame(3)[OF s1] by (simp add: s')
qed

lemma iterate_body_Suc_Inr:
  assumes "iterate_body env self cs om kw tf ms (Suc n) s = Inr sn"
  obtains s' where "body env self cs om kw tf ms s = Inr s'"
    and "iterate_body env self cs om kw tf ms n s' = Inr sn"
  using assms by (auto simp: ebind_Inr_iff)

lemma iterate_body_facts:
  assumes "iterate_body env self cs om kw tf ms n s = Inr sn" and "0 < n"
  shows "iter_i sn = iter_i s + n
       \<and> is_done sn = (converged env self tf sn \<or> ms \<le> int (iter_i sn))
       \<and> status sn = status s"
  using assms
proof (induction n arbitrary: s)
  case 0
  then show ?case by simp
next
  case (Suc n)
  from Suc.prems(1) obtain s' where b: "body env self cs om kw tf ms s = Inr s'"
    and it: "iterate_body env self cs om kw tf ms n s' = Inr sn"
    by (rule iterate_body_Suc_Inr)
  note f = body_done_flag[OF b]
  show ?case
  proof (cases n)
    case 0
    with it have "sn = s'" by simp
    with f show ?thesis using 0 by simp
  next
    case (Suc k)
    then have "0 < n" by simp
    from Suc.IH[OF it this] f show ?thesis by simp
  qed
qed

lemma initial_state_Inr:
  assumes "initial_state env self key0 N ms cs om kw = Inr s0"
  shows "\<exists>key1 init_key rs lp dp Ld se lX lw key2 ss.
      unpack2 (random_split env key0 2) = Inr (key1, init_key)
    \<and> sequence_err (map (single_sample env self) (random_split env init_key N)) = Inr rs
    \<and> stack_samples (map (\<lambda>r. fst (snd r)) rs) = Inr lp
    \<and> allocate self ms cs om = Inr (dp, Ld, se, lX, lw)
    \<and> s0 = \<lparr>key = key2,
          is_done = False,
          iter_i = 0,
          num_likelihood_evaluations = N,
          live_points_U = map fst rs,
          live_points = lp,
          log_L_live = map (\<lambda>r. snd (snd r)) rs,
          dead_points = dp,
          log_X = lX,
          log_w = lw,
          num_dead = 0,
          log_L_dead = Ld,
          sampler_efficiency = se,
          status = 0,
          sampler_state = ss,
          tracked_expectations_state =
            te_state (new_TrackedExpectation env (marginalised self) (marginalised_shapes self))\<rparr>"
  using assms
  apply (simp only: initial_state_def ebind_Inr_iff split_paired_Ex prod.case Let_def)
  apply (elim exE conjE)
  apply (intro exI conjI)
      apply assumption+
  apply (drule Inr_inject)
  apply (erule sym)
  done


lemma initial_state_fields:
  assumes "initial_state env self key0 N ms cs om kw = Inr s0"
  shows "iter_i s0 = 0" "\<not> is_done s0" "status s0 = 0" "num_dead s0 = 0"
proof -
  from initial_state_Inr[OF assms]
  have "iter_i s0 = 0 \<and> \<not> is_done s0 \<and> status s0 = 0 \<and> num_dead s0 = 0"
    by (elim exE conjE) simp
  then show "iter_i s0 = 0" "\<not> is_done s0" "status s0 = 0" "num_dead s0 = 0" by simp_all
qed


lemma while_loop_unfold:
  assumes "\<not> is_done s" and "while_loop env self cs om kw tf ms s = Inr sf"
  obtains s' where "body env self cs om kw tf ms s = Inr s'"
    and "while_loop env self cs om kw tf ms s' = Inr sf"
proof -
  have e: "while_loop env self cs om kw tf ms s =
      (case body env self cs om kw tf ms s of Inl e \<Rightarrow> Inl e
       | Inr s' \<Rightarrow> while_loop env self cs om kw tf ms s')"
    by (subst while_loop.simps) (simp add: assms(1))
  show ?thesis
  proof (cases "body env self cs om kw tf ms s")
    case (Inl e')
    with e assms(2) show ?thesis by simp
  next
    case (Inr s')
    with e assms(2) have "while_loop env self cs om kw tf ms s' = Inr sf" by simp
    with Inr that show ?thesis by blast
  qed
qed

lemma while_loop_done:
  assumes "is_done s"
  shows "while_loop env self cs om kw tf ms s = Inr s"
  by (subst while_loop.simps) (simp add: assms)


lemma while_loop_iterate:
  assumes "while_loop env self cs om kw tf ms s = Inr sf" and "\<not> is_done s"
  shows "\<exists>n>0. iterate_body env self cs om kw tf ms n s = Inr sf \<and> is_done sf
           \<and> (\<forall>m. 0 < m \<and> m < n \<longrightarrow>
                 (\<exists>sm. iterate_body env self cs om kw tf ms m s = Inr sm \<and> \<not> is_done sm))"
  using assms
proof (induction env self cs om kw tf ms s rule: while_loop.induct)
  case (1 env self cs om kw tf ms s)
  from while_loop_unfold[OF "1.prems"(2) "1.prems"(1)]
  obtain s' where b: "body env self cs om kw tf ms s = Inr s'"
    and w: "while_loop env self cs om kw tf ms s' = Inr sf" .
  have one: "iterate_body env self cs om kw tf ms (Suc 0) s = Inr s'"
    using b by simp
  show ?case
  proof (cases "is_done s'")
    case True
    with w have "sf = s'" by (simp add: while_loop_done)
    with one True have "0 < Suc 0 \<and> iterate_body env self cs om kw tf ms (Suc 0) s = Inr sf \<and> is_done sf
       \<and> (\<forall>m. 0 < m \<and> m < Suc 0 \<longrightarrow>
                 (\<exists>sm. iterate_body env self cs om kw tf ms m s = Inr sm \<and> \<not> is_done sm))"
      by simp
    then show ?thesis by (rule exI[of _ "Suc 0"])
  next
    case False
    have "\<exists>n>0. iterate_body env self cs om kw tf ms n s' = Inr sf \<and> is_done sf
           \<and> (\<forall>m. 0 < m \<and> m < n \<longrightarrow>
                 (\<exists>sm. iterate_body env self cs om kw tf ms m s' = Inr sm \<and> \<not> is_done sm))"
      using "1.prems"(2) b w False by (rule "1.IH")
    then obtain n where n: "0 < n"
      and it: "iterate_body env self cs om kw tf ms n s' = Inr sf" and d: "is_done sf"
      and mid: "\<And>m. 0 < m \<Longrightarrow> m < n \<Longrightarrow>
                 (\<exists>sm. iterate_body env self cs om kw tf ms m s' = Inr sm \<and> \<not> is_done sm)"
      by (elim exE conjE) simp
    have mid': "\<exists>sm. iterate_body env self cs om kw tf ms m s = Inr sm \<and> \<not> is_done sm"
      if m: "0 < m \<and> m < Suc n" for m
    proof (cases m)
      case 0
      with m show ?thesis by simp
    next
      case (Suc k)
      show ?thesis
      proof (cases k)
        case 0
        with Suc one False show ?thesis by simp
      next
        case (Suc j)
        with \<open>m = Suc k\<close> m have "0 < k" "k < n" by simp_all
        from mid[OF this] obtain sm where
          "iterate_body env self cs om kw tf ms k s' = Inr sm" "\<not> is_done sm"
          by (elim exE conjE)
        with \<open>m = Suc k\<close> b show ?thesis by simp
      qed
    qed
    have full: "iterate_body env self cs om kw tf ms (Suc n) s = Inr sf" using b it by simp
    have "0 < Suc n \<and> iterate_body env self cs om kw tf ms (Suc n) s = Inr sf \<and> is_done sf
       \<and> (\<forall>m. 0 < m \<and> m < Suc n \<longrightarrow>
                 (\<exists>sm. iterate_body env self cs om kw tf ms m s = Inr sm \<and> \<not> is_done sm))"
      using full d mid' by simp
    then show ?thesis by (rule exI[of _ "Suc n"])
  qed
qed



section \<open>The termination of the loop\<close>






text \<open>The two ways in which the example run ends.\<close>

lemma example_run_converges:
  "\<exists>sf. final_state (example_env growing_evidence) (example_sampler_obj (Scalar (Fin 0)))
          0 1 3 False (Fin 1) False None = Inr sf
      \<and> iter_i sf = 1 \<and> converged (example_env growing_evidence) (example_sampler_obj (Scalar (Fin 0))) (Fin 1) sf"
  by (subst while_loop.simps | simp add: eval_defs example_defs converged_def)+

lemma example_run_capped:
  "\<exists>sf. final_state (example_env no_evidence) (example_sampler_obj (Scalar (Fin 0)))
          0 1 1 False (Fin 1) False None = Inr sf
      \<and> iter_i sf = 1 \<and> \<not> converged (example_env no_evidence) (example_sampler_obj (Scalar (Fin 0))) (Fin 1) sf"
  by (subst while_loop.simps | simp add: eval_defs example_defs converged_def)+


section \<open>The exit status\<close>

text \<open>
  C5: the state record documents \<open>status\<close> as \<open>0=good, 1=max samples reached\<close>.
  No step writes it: in the state in which any run ends it is still the \<open>0\<close> of the
  initial state, also when the loop stopped at \<open>max_samples\<close> without convergence.
  The result record has no status field.
\<close>

theorem status_stays_zero:
  assumes "final_state env self key0 N ms cs tf om kwo = Inr sf"
  shows "status sf = 0"
proof -
  from assms obtain kw s0 where init: "initial_state env self key0 N ms cs om kw = Inr s0"
    and loop: "while_loop env self cs om kw tf ms s0 = Inr sf"
    unfolding final_state_def Let_def ebind_Inr_iff by blast
  note f0 = initial_state_fields[OF init]
  from while_loop_iterate[OF loop f0(2)] obtain n where n: "0 < n"
    and it: "iterate_body env self cs om kw tf ms n s0 = Inr sf"
    by (elim exE conjE)
  from iterate_body_facts[OF it n] f0(3) show ?thesis by simp
qed

theorem status_stays_zero_witness:
  "\<exists>sf. final_state (example_env no_evidence) (example_sampler_obj (Scalar (Fin 0)))
          0 1 1 False (Fin 1) False None = Inr sf
      \<and> iter_i sf = 1
      \<and> \<not> converged (example_env no_evidence) (example_sampler_obj (Scalar (Fin 0))) (Fin 1) sf
      \<and> status sf = 0"
proof -
  from example_run_capped obtain sf where
    fs: "final_state (example_env no_evidence) (example_sampler_obj (Scalar (Fin 0)))
          0 1 1 False (Fin 1) False None = Inr sf"
    and r: "iter_i sf = 1"
      "\<not> converged (example_env no_evidence) (example_sampler_obj (Scalar (Fin 0))) (Fin 1) sf"
    by blast
  from status_stays_zero[OF fs] have "status sf = 0" .
  with fs r show ?thesis by blast
qed

section \<open>The order of the dead points\<close>

lemma fixed_likelihood_not_nan:
  assumes "fixed_likelihood loglik x = Inr L"
  shows "\<not> isnan L"
proof (cases "loglik x")
  case (Scalar v)
  with assms show ?thesis by (cases v) auto
next
  case (NonScalar shp)
  with assms show ?thesis by simp
qed

lemma call_sampler_contract:
  assumes "sampler_contract env" and "call_sampler env self s kw L i X = Inr r"
  shows "fl_lt L (log_L_new r)"
proof -
  from assms(2) have "slice_sampling env (key s) L (live_points_U s)
             (kwargs_get kw ''num_slices'' 1) (loglikelihood self) (prior_chain self)
             i X (sampler_state s) = Some r
     \<or> multi_ellipsoid_sampler env (key s) L (live_points_U s) (loglikelihood self)
             (prior_chain self) (sampler_state s) X i = Some r"
    by (auto simp: call_sampler_def of_option_def split: if_splits option.splits)
  with assms(1) show ?thesis unfolding sampler_contract_def by blast
qed

lemma take_Suc_update:
  assumes "k < length d"
  shows "take (Suc k) (d[k := v]) = take k d @ [v]"
  using assms by (simp add: take_Suc_conv_app_nth)

lemma allocate_dead:
  assumes "allocate self ms cs False = Inr (dp, Ld, se, lX, lw)"
  shows "Ld = Some (replicate (nat ms) (Fin 0))"
  using assms by (auto simp: allocate_def ebind_Inr_iff split: if_splits)

lemma single_samples_not_nan:
  assumes "sequence_err (map (single_sample env self) ks) = Inr rs"
    and "loglikelihood self = fixed_likelihood loglik"
  shows "\<forall>y\<in>set (map (\<lambda>r. snd (snd r)) rs). \<not> isnan y"
proof -
  from sequence_err_Inr[OF assms(1)]
  have "list_all2 (\<lambda>k r. single_sample env self k = Inr r) ks rs"
    by (simp add: list_all2_map1)
  then have la: "\<forall>i<length rs. single_sample env self (ks ! i) = Inr (rs ! i)"
    by (simp add: list_all2_conv_all_nth)
  have "\<forall>r\<in>set rs. \<exists>k. single_sample env self k = Inr r"
  proof
    fix r assume "r \<in> set rs"
    then obtain i where "i < length rs" "rs ! i = r" by (auto simp: in_set_conv_nth)
    with la have "single_sample env self (ks ! i) = Inr r" by auto
    then show "\<exists>k. single_sample env self k = Inr r" by blast
  qed
  moreover have "\<not> isnan (snd (snd r))" if "single_sample env self k = Inr r" for k r
  proof -
    from that obtain x where "fixed_likelihood loglik x = Inr (snd (snd r))"
      by (auto simp: single_sample_def Let_def ebind_Inr_iff assms(2))
    then show ?thesis by (rule fixed_likelihood_not_nan)
  qed
  ultimately show ?thesis by auto
qed

lemma initial_dead_inv:
  assumes "initial_state env self key0 N ms cs False kw = Inr s0"
    and "loglikelihood self = fixed_likelihood loglik"
  shows "dead_inv ms s0"
proof -
  from initial_state_Inr[OF assms(1)] show ?thesis
  proof (elim exE conjE)
    fix key1 init_key rs lp dp Ld se lX lw key2 ss
    assume seq: "sequence_err (map (single_sample env self) (random_split env init_key N)) = Inr rs"
      and al: "allocate self ms cs False = Inr (dp, Ld, se, lX, lw)"
      and s0: "s0 = \<lparr>key = key2,
          is_done = False,
          iter_i = 0,
          num_likelihood_evaluations = N,
          live_points_U = map fst rs,
          live_points = lp,
          log_L_live = map (\<lambda>r. snd (snd r)) rs,
          dead_points = dp,
          log_X = lX,
          log_w = lw,
          num_dead = 0,
          log_L_dead = Ld,
          sampler_efficiency = se,
          status = 0,
          sampler_state = ss,
          tracked_expectations_state =
            te_state (new_TrackedExpectation env (marginalised self) (marginalised_shapes self))\<rparr>"
    have nn: "\<forall>y\<in>set (map (\<lambda>r. snd (snd r)) rs). \<not> isnan y"
      using single_samples_not_nan[OF seq assms(2)] .
    have Ld: "Ld = Some (replicate (nat ms) (Fin 0))" using allocate_dead[OF al] .
    show "dead_inv ms s0"
      unfolding dead_inv_def using nn by (simp add: s0 Ld)
  qed
qed


lemma body_dead_inv:
  assumes inv: "dead_inv ms s" and nd: "\<not> is_done s"
    and b: "body env self cs False kw tf ms s = Inr s'"
    and sc: "sampler_contract env"
  shows "dead_inv ms s'"
proof -
  from inv obtain d where d: "log_L_dead s = Some d" and len: "length d = nat ms"
    and ni: "num_dead s = iter_i s" and nle: "num_dead s \<le> length d"
    and cap: "0 < iter_i s \<and> \<not> is_done s \<longrightarrow> int (iter_i s) < ms"
    and so: "sorted_wrt fl_le (take (num_dead s) d)"
    and dl: "\<forall>x\<in>set (take (num_dead s) d). \<forall>y\<in>set (log_L_live s). fl_le x y"
    and nn: "\<forall>y\<in>set (log_L_live s). \<not> isnan y"
    unfolding dead_inv_def by blast
  from body_Inr[OF b] obtain s1 where
    s1: "one_step env self s cs False kw = Inr s1"
    and s': "s' = s1\<lparr>is_done := (fl_lt (logZ_live env self s1)
                  (fl_add (fl_log tf) (evidence_mean env self s1))
                \<or> ms \<le> int (iter_i s1 + 1)), iter_i := iter_i s1 + 1\<rparr>"
    by blast
  note fr1 = one_step_frame[OF s1]
  from one_step_Inr[OF s1] show ?thesis
  proof (elim exE conjE)
    fix i_min dead_point ts s0 r L' lp' lpU' s2
    assume pre: "step_pre env self s cs False kw i_min dead_point ts s0"
      and call: "call_sampler env self s0 kw (log_L_live s ! i_min) i_min
         (te_X_log_value (new_TrackedExpectation env (marginalised self) (marginalised_shapes self)) ts) = Inr r"
      and L': "dynamic_update_slice (log_L_live s0) [log_L_new r] i_min = Inr L'"
      and eff: "(if \<not> False
            then ebind (buffer (sampler_efficiency s0)) (\<lambda>b_e.
                 ebind (dynamic_update_slice b_e
                          [fl_div_nat 1 (sr_num_likelihood_evaluations r)]
                          (num_dead s0)) (\<lambda>sampler_efficiency'.
                 Inr (s0\<lparr>sampler_efficiency := Some sampler_efficiency'\<rparr>)))
            else Inr s0) = Inr s2"
      and s1e: "s1 = s2\<lparr>key := sr_key r,
             num_likelihood_evaluations :=
               num_likelihood_evaluations s2 + sr_num_likelihood_evaluations r,
             log_L_live := L',
             live_points := lp',
             live_points_U := lpU',
             sampler_state := sr_sampler_state r,
             tracked_expectations_state := ts,
             num_dead := num_dead s2 + 1\<rparr>"
    define Lmin where "Lmin = log_L_live s ! i_min"
    note fr = step_pre_frame[OF pre]
    have am: "argmin (log_L_live s) = Inr i_min" using pre by (simp add: step_pre_def)
    from argmin_first_min[OF am nn]
    have i: "i_min < length (log_L_live s)"
      and mn: "\<forall>j<length (log_L_live s). fl_le Lmin (log_L_live s ! j)"
      by (simp_all add: Lmin_def)
    have mn': "\<forall>y\<in>set (log_L_live s). fl_le Lmin y"
      using mn by (auto simp: in_set_conv_nth)
    from pre obtain X dw where rd: "record_dead s cs dead_point X dw Lmin = Inr s0"
      unfolding step_pre_def Lmin_def by auto
    from record_dead_Inr[OF rd] obtain b_L ld' lX' lw' dp' where
      bl: "buffer (log_L_dead s) = Inr b_L"
      and up: "dynamic_update_slice b_L [Lmin] (num_dead s) = Inr ld'"
      and s0: "s0 = s\<lparr>log_X := Some lX', log_w := Some lw', log_L_dead := Some ld',
                   dead_points := dp'\<rparr>"
      by blast
    have "b_L = d" using bl d by (simp add: buffer_def of_option_def)
    with up have up': "dynamic_update_slice d [Lmin] (num_dead s) = Inr ld'" by simp
    then have pos: "1 \<le> length d"
      by (cases d) (simp_all add: dynamic_update_slice_def)
    have lt: "num_dead s < length d"
    proof (cases "iter_i s = 0")
      case True
      with ni pos show ?thesis by (cases d) simp_all
    next
      case False
      with cap nd have "int (iter_i s) < ms" by simp
      with len ni show ?thesis by simp
    qed
    have ld': "ld' = d[num_dead s := Lmin]"
      using dynamic_update_slice_single[OF up' lt] .
    from eff_update_frame[OF eff] obtain e where s2: "s2 = s0\<lparr>sampler_efficiency := e\<rparr>" ..
    have new: "fl_lt Lmin (log_L_new r)"
      using call_sampler_contract[OF sc call] by (simp add: Lmin_def)
    have 1: "L' = (log_L_live s)[i_min := log_L_new r]"
      using dynamic_update_slice_single[OF L'] i fr(5) by simp
    have e1: "log_L_dead s' = Some (d[num_dead s := Lmin])"
      by (simp add: s' s1e s2 s0 ld')
    have e2: "num_dead s' = Suc (num_dead s)" using fr1(4) by (simp add: s')
    have e3: "iter_i s' = Suc (iter_i s)" using fr1(1) by (simp add: s')
    have e4: "log_L_live s' = (log_L_live s)[i_min := log_L_new r]"
      by (simp add: s' s1e 1)
    have e5: "\<not> is_done s' \<longrightarrow> int (iter_i s') < ms"
      using body_iter(2)[OF b] by simp
    have tk: "take (Suc (num_dead s)) (d[num_dead s := Lmin]) = take (num_dead s) d @ [Lmin]"
      using take_Suc_update[OF lt] .
    have live': "\<forall>y\<in>set ((log_L_live s)[i_min := log_L_new r]). fl_le Lmin y \<and> \<not> isnan y"
    proof
      fix y assume "y \<in> set ((log_L_live s)[i_min := log_L_new r])"
      then have "y = log_L_new r \<or> y \<in> set (log_L_live s)"
        using set_update_subset_insert by fastforce
      then show "fl_le Lmin y \<and> \<not> isnan y"
        using new mn' nn fl_lt_imp_le fl_lt_not_nan by blast
    qed
    have dl_min: "\<forall>x\<in>set (take (num_dead s) d). fl_le x Lmin"
      using dl i by (simp add: Lmin_def)
    have so': "sorted_wrt fl_le (take (num_dead s) d @ [Lmin])"
      using so dl_min by (simp add: sorted_wrt_append)
    have dl': "\<forall>x\<in>set (take (num_dead s) d @ [Lmin]).
                 \<forall>y\<in>set ((log_L_live s)[i_min := log_L_new r]). fl_le x y"
    proof (intro ballI)
      fix x y assume x: "x \<in> set (take (num_dead s) d @ [Lmin])"
        and y: "y \<in> set ((log_L_live s)[i_min := log_L_new r])"
      from y live' have ly: "fl_le Lmin y" by blast
      from x have "x = Lmin \<or> fl_le x Lmin" using dl_min by auto
      then show "fl_le x y" using ly fl_le_trans by blast
    qed
    define d' where "d' = d[num_dead s := Lmin]"
    have a1: "log_L_dead s' = Some d'" using e1 by (simp add: d'_def)
    have a2: "length d' = nat ms" using len by (simp add: d'_def)
    have a3: "num_dead s' = iter_i s'" using e2 e3 ni by simp
    have a4: "num_dead s' \<le> length d'" using e2 lt by (simp add: d'_def)
    have a5: "0 < iter_i s' \<and> \<not> is_done s' \<longrightarrow> int (iter_i s') < ms" using e5 by simp
    have tk': "take (num_dead s') d' = take (num_dead s) d @ [Lmin]"
      using tk by (simp add: e2 d'_def)
    have a6: "sorted_wrt fl_le (take (num_dead s') d')" using so' by (simp only: tk')
    have a7: "\<forall>x\<in>set (take (num_dead s') d'). \<forall>y\<in>set (log_L_live s'). fl_le x y"
      using dl' by (simp only: tk' e4)
    have a8: "\<forall>y\<in>set (log_L_live s'). \<not> isnan y"
      using live' by (simp only: e4) blast
    show "dead_inv ms s'"
      unfolding dead_inv_def
      apply (rule exI[of _ d'])
      using a1 a2 a3 a4 a5 a6 a7 a8 apply (intro conjI)
             apply assumption+
      done
  qed
qed

lemma while_loop_dead_inv:
  assumes "while_loop env self cs False kw tf ms s = Inr sf"
    and "dead_inv ms s" and "sampler_contract env"
  shows "dead_inv ms sf"
  using assms
proof (induction env self cs "False" kw tf ms s rule: while_loop.induct)
  case (1 env self cs kw tf ms s)
  show ?case
  proof (cases "is_done s")
    case True
    with "1.prems"(1) have "sf = s" by (simp add: while_loop_done)
    with "1.prems"(2) show ?thesis by simp
  next
    case False
    from while_loop_unfold[OF False "1.prems"(1)]
    obtain s' where b: "body env self cs False kw tf ms s = Inr s'"
      and w: "while_loop env self cs False kw tf ms s' = Inr sf" .
    have "dead_inv ms s'" using "1.prems"(2) False b "1.prems"(3) by (rule body_dead_inv)
    with False b w show ?thesis using "1.prems"(3) by (rule "1.hyps")
  qed
qed


lemma NestedSampler_init_loglikelihood:
  assumes "NestedSampler_init loglik pc sname marg = Inr self"
  shows "loglikelihood self = fixed_likelihood loglik"
  using assms by (auto simp: NestedSampler_init_def Let_def split: if_splits)

lemma example_init:
  "NestedSampler_init (const_loglik out) example_prior_chain ''slice'' [] = Inr (example_sampler_obj out)"
  by (simp add: NestedSampler_init_def available_samplers_def example_sampler_obj_def Let_def)

lemma example_sampler_contract: "sampler_contract (example_env E)"
  by (auto simp: sampler_contract_def example_env_def example_sampler_def split: fl.splits)

lemma ebind_Inr_right: "ebind m Inr = m"
  by (cases m) (simp_all add: ebind_def)

lemma ebind_assoc: "ebind (ebind m f) g = ebind m (\<lambda>x. ebind (f x) g)"
  by (cases m) (simp_all add: ebind_def)

lemma iterate_body_snoc:
  "iterate_body env self cs om kw tf ms (Suc n) s =
     ebind (iterate_body env self cs om kw tf ms n s) (body env self cs om kw tf ms)"
proof (induction n arbitrary: s)
  case 0
  have "iterate_body env self cs om kw tf ms 0 = Inr" by (rule ext) simp
  then show ?case by (simp add: ebind_Inr_right)
next
  case (Suc n)
  have "iterate_body env self cs om kw tf ms (Suc (Suc n)) s =
      ebind (body env self cs om kw tf ms s) (iterate_body env self cs om kw tf ms (Suc n))"
    by simp
  also have "\<dots> = ebind (body env self cs om kw tf ms s)
      (\<lambda>s'. ebind (iterate_body env self cs om kw tf ms n s') (body env self cs om kw tf ms))"
  proof -
    have "iterate_body env self cs om kw tf ms (Suc n) =
      (\<lambda>s'. ebind (iterate_body env self cs om kw tf ms n s') (body env self cs om kw tf ms))"
      by (rule ext) (rule Suc.IH)
    then show ?thesis by (simp only:)
  qed
  also have "\<dots> = ebind (ebind (body env self cs om kw tf ms s)
      (iterate_body env self cs om kw tf ms n)) (body env self cs om kw tf ms)"
    by (simp only: ebind_assoc)
  also have "\<dots> = ebind (iterate_body env self cs om kw tf ms (Suc n) s) (body env self cs om kw tf ms)"
    by simp
  finally show ?case .
qed

lemma body_dead_step:
  assumes inv: "dead_inv ms s" and nd: "\<not> is_done s"
    and b: "body env self cs False kw tf ms s = Inr s'"
    and sc: "sampler_contract env"
  shows "\<exists>d i. log_L_dead s = Some d \<and> num_dead s < length d
            \<and> log_L_dead s' = Some (d[num_dead s := log_L_live s ! i])
            \<and> num_dead s' = Suc (num_dead s)
            \<and> replaces_minimum (log_L_live s) (log_L_live s') (log_L_live s ! i)"
proof -
  from inv obtain d where d: "log_L_dead s = Some d" and len: "length d = nat ms"
    and ni: "num_dead s = iter_i s" and nle: "num_dead s \<le> length d"
    and cap: "0 < iter_i s \<and> \<not> is_done s \<longrightarrow> int (iter_i s) < ms"
    and so: "sorted_wrt fl_le (take (num_dead s) d)"
    and dl: "\<forall>x\<in>set (take (num_dead s) d). \<forall>y\<in>set (log_L_live s). fl_le x y"
    and nn: "\<forall>y\<in>set (log_L_live s). \<not> isnan y"
    unfolding dead_inv_def by blast
  from body_Inr[OF b] obtain s1 where
    s1: "one_step env self s cs False kw = Inr s1"
    and s': "s' = s1\<lparr>is_done := (fl_lt (logZ_live env self s1)
                  (fl_add (fl_log tf) (evidence_mean env self s1))
                \<or> ms \<le> int (iter_i s1 + 1)), iter_i := iter_i s1 + 1\<rparr>"
    by blast
  note fr1 = one_step_frame[OF s1]
  from one_step_Inr[OF s1] show ?thesis
  proof (elim exE conjE)
    fix i_min dead_point ts s0 r L' lp' lpU' s2
    assume pre: "step_pre env self s cs False kw i_min dead_point ts s0"
      and call: "call_sampler env self s0 kw (log_L_live s ! i_min) i_min
         (te_X_log_value (new_TrackedExpectation env (marginalised self) (marginalised_shapes self)) ts) = Inr r"
      and L': "dynamic_update_slice (log_L_live s0) [log_L_new r] i_min = Inr L'"
      and eff: "(if \<not> False
            then ebind (buffer (sampler_efficiency s0)) (\<lambda>b_e.
                 ebind (dynamic_update_slice b_e
                          [fl_div_nat 1 (sr_num_likelihood_evaluations r)]
                          (num_dead s0)) (\<lambda>sampler_efficiency'.
                 Inr (s0\<lparr>sampler_efficiency := Some sampler_efficiency'\<rparr>)))
            else Inr s0) = Inr s2"
      and s1e: "s1 = s2\<lparr>key := sr_key r,
             num_likelihood_evaluations :=
               num_likelihood_evaluations s2 + sr_num_likelihood_evaluations r,
             log_L_live := L',
             live_points := lp',
             live_points_U := lpU',
             sampler_state := sr_sampler_state r,
             tracked_expectations_state := ts,
             num_dead := num_dead s2 + 1\<rparr>"
    define Lmin where "Lmin = log_L_live s ! i_min"
    note fr = step_pre_frame[OF pre]
    have am: "argmin (log_L_live s) = Inr i_min" using pre by (simp add: step_pre_def)
    from argmin_first_min[OF am nn]
    have i: "i_min < length (log_L_live s)"
      and mn: "\<forall>j<length (log_L_live s). fl_le Lmin (log_L_live s ! j)"
      by (simp_all add: Lmin_def)
    have mn': "\<forall>y\<in>set (log_L_live s). fl_le Lmin y"
      using mn by (auto simp: in_set_conv_nth)
    from pre obtain X dw where rd: "record_dead s cs dead_point X dw Lmin = Inr s0"
      unfolding step_pre_def Lmin_def by auto
    from record_dead_Inr[OF rd] obtain b_L ld' lX' lw' dp' where
      bl: "buffer (log_L_dead s) = Inr b_L"
      and up: "dynamic_update_slice b_L [Lmin] (num_dead s) = Inr ld'"
      and s0: "s0 = s\<lparr>log_X := Some lX', log_w := Some lw', log_L_dead := Some ld',
                   dead_points := dp'\<rparr>"
      by blast
    have "b_L = d" using bl d by (simp add: buffer_def of_option_def)
    with up have up': "dynamic_update_slice d [Lmin] (num_dead s) = Inr ld'" by simp
    then have pos: "1 \<le> length d"
      by (cases d) (simp_all add: dynamic_update_slice_def)
    have lt: "num_dead s < length d"
    proof (cases "iter_i s = 0")
      case True
      with ni pos show ?thesis by (cases d) simp_all
    next
      case False
      with cap nd have "int (iter_i s) < ms" by simp
      with len ni show ?thesis by simp
    qed
    have ld': "ld' = d[num_dead s := Lmin]"
      using dynamic_update_slice_single[OF up' lt] .
    from eff_update_frame[OF eff] obtain e where s2: "s2 = s0\<lparr>sampler_efficiency := e\<rparr>" ..
    have new: "fl_lt Lmin (log_L_new r)"
      using call_sampler_contract[OF sc call] by (simp add: Lmin_def)
    have 1: "L' = (log_L_live s)[i_min := log_L_new r]"
      using dynamic_update_slice_single[OF L'] i fr(5) by simp
    have e1: "log_L_dead s' = Some (d[num_dead s := Lmin])"
      by (simp add: s' s1e s2 s0 ld')
    have e2: "num_dead s' = Suc (num_dead s)" using fr1(4) by (simp add: s')
    have e3: "iter_i s' = Suc (iter_i s)" using fr1(1) by (simp add: s')
    have e4: "log_L_live s' = (log_L_live s)[i_min := log_L_new r]"
      by (simp add: s' s1e 1)
    have len': "length (log_L_live s') = length (log_L_live s)" by (simp add: e4)
    have nth': "log_L_live s' ! i_min = log_L_new r" using i by (simp add: e4)
    have rm: "replaces_minimum (log_L_live s) (log_L_live s') Lmin"
      unfolding replaces_minimum_def
    proof (intro exI[of _ i_min] conjI)
      show "i_min < length (log_L_live s)" by (rule i)
      show "log_L_live s ! i_min = Lmin" by (simp add: Lmin_def)
      show "\<forall>y\<in>set (log_L_live s). fl_le Lmin y" by (rule mn')
      show "log_L_live s' = (log_L_live s)[i_min := log_L_live s' ! i_min]"
        by (simp add: nth') (rule e4)
      show "fl_lt Lmin (log_L_live s' ! i_min)" by (simp add: nth') (rule new)
    qed
    have "log_L_dead s = Some d \<and> num_dead s < length d
            \<and> log_L_dead s' = Some (d[num_dead s := log_L_live s ! i_min])
            \<and> num_dead s' = Suc (num_dead s)
            \<and> replaces_minimum (log_L_live s) (log_L_live s') (log_L_live s ! i_min)"
      using d lt e1 e2 rm by (simp add: Lmin_def)
    then show ?thesis by (intro exI)
  qed
qed

lemma iterate_body_history:
  assumes "dead_inv ms s0" and "iter_i s0 = 0" and "sampler_contract env"
    and "iterate_body env self cs False kw tf ms n s0 = Inr sn"
    and "\<forall>m<n. \<exists>sm. iterate_body env self cs False kw tf ms m s0 = Inr sm \<and> \<not> is_done sm"
  shows "dead_inv ms sn \<and> num_dead sn = n
       \<and> (\<exists>d. log_L_dead sn = Some d \<and> n \<le> length d
            \<and> (\<forall>m<n. \<exists>sm sm'.
                  iterate_body env self cs False kw tf ms m s0 = Inr sm
                \<and> iterate_body env self cs False kw tf ms (Suc m) s0 = Inr sm'
                \<and> replaces_minimum (log_L_live sm) (log_L_live sm') (d ! m)))"
  using assms(4,5)
proof (induction n arbitrary: sn)
  case 0
  then have sn: "sn = s0" by simp
  from assms(1) obtain d where d: "log_L_dead s0 = Some d" and ni: "num_dead s0 = iter_i s0"
    unfolding dead_inv_def by blast
  have "log_L_dead sn = Some d \<and> 0 \<le> length d
            \<and> (\<forall>m<0. \<exists>sm sm'.
                  iterate_body env self cs False kw tf ms m s0 = Inr sm
                \<and> iterate_body env self cs False kw tf ms (Suc m) s0 = Inr sm'
                \<and> replaces_minimum (log_L_live sm) (log_L_live sm') (d ! m))"
    using d sn by simp
  then have "\<exists>d. log_L_dead sn = Some d \<and> 0 \<le> length d
            \<and> (\<forall>m<0. \<exists>sm sm'.
                  iterate_body env self cs False kw tf ms m s0 = Inr sm
                \<and> iterate_body env self cs False kw tf ms (Suc m) s0 = Inr sm'
                \<and> replaces_minimum (log_L_live sm) (log_L_live sm') (d ! m))"
    by (rule exI)
  moreover have "dead_inv ms sn" using assms(1) sn by simp
  moreover have "num_dead sn = 0" using ni assms(2) sn by simp
  ultimately show ?case by simp
next
  case (Suc n)
  from Suc.prems(1) obtain sp where
    sp: "iterate_body env self cs False kw tf ms n s0 = Inr sp"
    and b: "body env self cs False kw tf ms sp = Inr sn"
    unfolding iterate_body_snoc ebind_Inr_iff by blast
  have mid: "\<forall>m<n. \<exists>sm. iterate_body env self cs False kw tf ms m s0 = Inr sm \<and> \<not> is_done sm"
    using Suc.prems(2) by simp
  from Suc.IH[OF sp mid] obtain d where
    inv: "dead_inv ms sp" and nd: "num_dead sp = n"
    and d: "log_L_dead sp = Some d"
    and hist: "\<And>m. m < n \<Longrightarrow> \<exists>sm sm'.
                  iterate_body env self cs False kw tf ms m s0 = Inr sm
                \<and> iterate_body env self cs False kw tf ms (Suc m) s0 = Inr sm'
                \<and> replaces_minimum (log_L_live sm) (log_L_live sm') (d ! m)"
    by (elim exE conjE) blast
  from Suc.prems(2) sp have notdone: "\<not> is_done sp" by auto
  have inv': "dead_inv ms sn" using inv notdone b assms(3) by (rule body_dead_inv)
  from body_dead_step[OF inv notdone b assms(3)] d obtain i where
    lt: "num_dead sp < length d"
    and d': "log_L_dead sn = Some (d[num_dead sp := log_L_live sp ! i])"
    and nd': "num_dead sn = Suc (num_dead sp)"
    and rm: "replaces_minimum (log_L_live sp) (log_L_live sn) (log_L_live sp ! i)"
    by (elim exE conjE) simp
  define dn where "dn = d[n := log_L_live sp ! i]"
  have e1: "log_L_dead sn = Some dn" using d' nd by (simp add: dn_def)
  have e2: "Suc n \<le> length dn" using lt nd by (simp add: dn_def)
  have e3: "\<exists>sm sm'.
                  iterate_body env self cs False kw tf ms m s0 = Inr sm
                \<and> iterate_body env self cs False kw tf ms (Suc m) s0 = Inr sm'
                \<and> replaces_minimum (log_L_live sm) (log_L_live sm') (dn ! m)"
    if m: "m < Suc n" for m
  proof (cases "m = n")
    case True
    have "dn ! m = log_L_live sp ! i" using lt nd True by (simp add: dn_def)
    with sp Suc.prems(1) rm True
    have "iterate_body env self cs False kw tf ms m s0 = Inr sp
                \<and> iterate_body env self cs False kw tf ms (Suc m) s0 = Inr sn
                \<and> replaces_minimum (log_L_live sp) (log_L_live sn) (dn ! m)"
      by simp
    then show ?thesis by (intro exI)
  next
    case False
    with m have mn: "m < n" by simp
    then have "dn ! m = d ! m" by (simp add: dn_def)
    with hist[OF mn] show ?thesis by simp
  qed
  have "log_L_dead sn = Some dn \<and> Suc n \<le> length dn
            \<and> (\<forall>m<Suc n. \<exists>sm sm'.
                  iterate_body env self cs False kw tf ms m s0 = Inr sm
                \<and> iterate_body env self cs False kw tf ms (Suc m) s0 = Inr sm'
                \<and> replaces_minimum (log_L_live sm) (log_L_live sm') (dn ! m))"
    using e1 e2 e3 by blast
  then have "\<exists>d. log_L_dead sn = Some d \<and> Suc n \<le> length d
            \<and> (\<forall>m<Suc n. \<exists>sm sm'.
                  iterate_body env self cs False kw tf ms m s0 = Inr sm
                \<and> iterate_body env self cs False kw tf ms (Suc m) s0 = Inr sm'
                \<and> replaces_minimum (log_L_live sm) (log_L_live sm') (d ! m))"
    by (rule exI)
  moreover have "num_dead sn = Suc n" using nd' nd by simp
  ultimately show ?case using inv' by simp
qed

text \<open>
  C2: under the contract of the samplers, in a run with \<open>only_marginalise = False\<close>
  that returns, the state is reached from the initial state by \<open>num_dead\<close> steps; the
  \<open>m\<close>-th recorded log-likelihood is a minimum of the live log-likelihoods before step
  \<open>m + 1\<close>, and that step replaces one live entry holding it by a strictly greater
  value.  Hence the first \<open>num_dead\<close> entries of \<open>log_L_dead\<close> are in non-decreasing
  order, and none of them exceeds a live log-likelihood of the final state.
\<close>

theorem dead_points_are_successive_live_minima:
  assumes "NestedSampler_init loglik pc sname marg = Inr self"
    and "sampler_contract env"
    and "final_state env self key0 N ms cs tf False kwo = Inr sf"
  shows "\<exists>kw s0 d.
       kw = (case kwo of None \<Rightarrow> [] | Some d \<Rightarrow> d)
     \<and> initial_state env self key0 N ms cs False kw = Inr s0
     \<and> iterate_body env self cs False kw tf ms (num_dead sf) s0 = Inr sf
     \<and> log_L_dead sf = Some d \<and> num_dead sf \<le> length d
     \<and> (\<forall>m<num_dead sf. \<exists>sm sm'.
            iterate_body env self cs False kw tf ms m s0 = Inr sm
          \<and> iterate_body env self cs False kw tf ms (Suc m) s0 = Inr sm'
          \<and> replaces_minimum (log_L_live sm) (log_L_live sm') (d ! m))
     \<and> sorted_wrt fl_le (take (num_dead sf) d)
     \<and> (\<forall>x\<in>set (take (num_dead sf) d). \<forall>y\<in>set (log_L_live sf). fl_le x y)"
proof -
  define kw where "kw = (case kwo of None \<Rightarrow> [] | Some d \<Rightarrow> d)"
  from assms(3) obtain s0 where init: "initial_state env self key0 N ms cs False kw = Inr s0"
    and loop: "while_loop env self cs False kw tf ms s0 = Inr sf"
    unfolding final_state_def Let_def ebind_Inr_iff kw_def by blast
  note f0 = initial_state_fields[OF init]
  have inv0: "dead_inv ms s0"
    using init NestedSampler_init_loglikelihood[OF assms(1)] by (rule initial_dead_inv)
  from while_loop_iterate[OF loop f0(2)] obtain n where n: "0 < n"
    and it: "iterate_body env self cs False kw tf ms n s0 = Inr sf"
    and mid: "\<And>m. 0 < m \<Longrightarrow> m < n \<Longrightarrow>
                 (\<exists>sm. iterate_body env self cs False kw tf ms m s0 = Inr sm \<and> \<not> is_done sm)"
    by (elim exE conjE) simp
  have mid': "\<forall>m<n. \<exists>sm. iterate_body env self cs False kw tf ms m s0 = Inr sm \<and> \<not> is_done sm"
  proof (intro allI impI)
    fix m assume m: "m < n"
    show "\<exists>sm. iterate_body env self cs False kw tf ms m s0 = Inr sm \<and> \<not> is_done sm"
    proof (cases m)
      case 0
      with f0(2) show ?thesis by simp
    next
      case (Suc k)
      with m mid[of m] show ?thesis by simp
    qed
  qed
  from iterate_body_history[OF inv0 f0(1) assms(2) it mid'] obtain d where
    invf: "dead_inv ms sf" and nd: "num_dead sf = n"
    and d: "log_L_dead sf = Some d" and len: "n \<le> length d"
    and hist: "\<forall>m<n. \<exists>sm sm'.
            iterate_body env self cs False kw tf ms m s0 = Inr sm
          \<and> iterate_body env self cs False kw tf ms (Suc m) s0 = Inr sm'
          \<and> replaces_minimum (log_L_live sm) (log_L_live sm') (d ! m)"
    by (elim exE conjE) blast
  from invf d have so: "sorted_wrt fl_le (take (num_dead sf) d)"
    and dl: "\<forall>x\<in>set (take (num_dead sf) d). \<forall>y\<in>set (log_L_live sf). fl_le x y"
    unfolding dead_inv_def by auto
  have "kw = (case kwo of None \<Rightarrow> [] | Some d \<Rightarrow> d)
     \<and> initial_state env self key0 N ms cs False kw = Inr s0
     \<and> iterate_body env self cs False kw tf ms (num_dead sf) s0 = Inr sf
     \<and> log_L_dead sf = Some d \<and> num_dead sf \<le> length d
     \<and> (\<forall>m<num_dead sf. \<exists>sm sm'.
            iterate_body env self cs False kw tf ms m s0 = Inr sm
          \<and> iterate_body env self cs False kw tf ms (Suc m) s0 = Inr sm'
          \<and> replaces_minimum (log_L_live sm) (log_L_live sm') (d ! m))
     \<and> sorted_wrt fl_le (take (num_dead sf) d)
     \<and> (\<forall>x\<in>set (take (num_dead sf) d). \<forall>y\<in>set (log_L_live sf). fl_le x y)"
    unfolding nd using kw_def init it d len hist so[unfolded nd] dl[unfolded nd] by simp
  then show ?thesis by (intro exI)
qed

lemma tophat_init:
  "NestedSampler_init (tophat_loglik lo hi) example_prior_chain ''slice'' [] = Inr (tophat_obj lo hi)"
  by (simp add: NestedSampler_init_def available_samplers_def tophat_obj_def Let_def)

lemma honest_sampler_contract: "sampler_contract (honest_env E)"
  by (auto simp: sampler_contract_def honest_env_def example_env_def honest_sampler_def
           split: sum.splits if_splits)

lemma tophat_run_two_dead:
  "\<exists>sf. final_state (honest_env null_evidence) (tophat_obj (Fin 3) (Fin 4))
          0 2 2 False (Fin 1) False None = Inr sf
      \<and> num_dead sf = 2 \<and> log_L_dead sf = Some [Fin 3, Fin 3]
      \<and> log_L_live sf = [Fin 4, Fin 4]"
  by (subst while_loop.simps
      | simp add: eval_defs example_defs honest_defs one_plus_exp_simps)+

lemma tophat_run_two_dead_first_step:
  "\<exists>s0 s1. initial_state (honest_env null_evidence) (tophat_obj (Fin 3) (Fin 4))
          0 2 2 False False [] = Inr s0
      \<and> iterate_body (honest_env null_evidence) (tophat_obj (Fin 3) (Fin 4))
          False False [] (Fin 1) 2 (Suc 0) s0 = Inr s1
      \<and> log_L_live s0 = [Fin 3, Fin 3]
      \<and> log_L_live s1 = [Fin 4, Fin 3]"
  by (simp add: eval_defs example_defs honest_defs one_plus_exp_simps)

theorem dead_points_are_successive_live_minima_witness:
  "sampler_contract (honest_env null_evidence)
   \<and> (\<exists>sf s0 s1 d.
         final_state (honest_env null_evidence) (tophat_obj (Fin 3) (Fin 4))
            0 2 2 False (Fin 1) False None = Inr sf
       \<and> initial_state (honest_env null_evidence) (tophat_obj (Fin 3) (Fin 4))
            0 2 2 False False [] = Inr s0
       \<and> iterate_body (honest_env null_evidence) (tophat_obj (Fin 3) (Fin 4))
            False False [] (Fin 1) 2 1 s0 = Inr s1
       \<and> iterate_body (honest_env null_evidence) (tophat_obj (Fin 3) (Fin 4))
            False False [] (Fin 1) 2 2 s0 = Inr sf
       \<and> log_L_live s0 = [Fin 3, Fin 3] \<and> log_L_live s1 = [Fin 4, Fin 3]
       \<and> log_L_live sf = [Fin 4, Fin 4]
       \<and> num_dead sf = 2 \<and> log_L_dead sf = Some d \<and> d = [Fin 3, Fin 3]
       \<and> replaces_minimum (log_L_live s0) (log_L_live s1) (d ! 0)
       \<and> replaces_minimum (log_L_live s1) (log_L_live sf) (d ! 1)
       \<and> sorted_wrt fl_le (take (num_dead sf) d)
       \<and> (\<forall>x\<in>set (take (num_dead sf) d). \<forall>y\<in>set (log_L_live sf). fl_le x y))"
proof -
  let ?env = "honest_env null_evidence :: (nat, unit, nat) env"
  let ?self = "tophat_obj (Fin 3) (Fin 4)"
  from tophat_run_two_dead obtain sf where
    fs: "final_state ?env ?self 0 2 2 False (Fin 1) False None = Inr sf"
    and v: "num_dead sf = 2" "log_L_dead sf = Some [Fin 3, Fin 3]"
      "log_L_live sf = [Fin 4, Fin 4]"
    by blast
  from tophat_run_two_dead_first_step obtain s0 s1 where
    i0: "initial_state ?env ?self 0 2 2 False False [] = Inr s0"
    and i1: "iterate_body ?env ?self False False [] (Fin 1) 2 (Suc 0) s0 = Inr s1"
    and l: "log_L_live s0 = [Fin 3, Fin 3]" "log_L_live s1 = [Fin 4, Fin 3]"
    by blast
  from dead_points_are_successive_live_minima[OF tophat_init honest_sampler_contract fs]
  obtain kw s0' d where
    1: "kw = (case (None :: (string \<times> nat) list option) of None \<Rightarrow> [] | Some d \<Rightarrow> d)"
    and 2: "initial_state ?env ?self 0 2 2 False False kw = Inr s0'"
    and 3: "iterate_body ?env ?self False False kw (Fin 1) 2 (num_dead sf) s0' = Inr sf"
    and 4: "log_L_dead sf = Some d"
    and 5: "\<And>m. m < num_dead sf \<Longrightarrow> \<exists>sm sm'.
            iterate_body ?env ?self False False kw (Fin 1) 2 m s0' = Inr sm
          \<and> iterate_body ?env ?self False False kw (Fin 1) 2 (Suc m) s0' = Inr sm'
          \<and> replaces_minimum (log_L_live sm) (log_L_live sm') (d ! m)"
    and 6: "sorted_wrt fl_le (take (num_dead sf) d)"
    and 7: "\<forall>x\<in>set (take (num_dead sf) d). \<forall>y\<in>set (log_L_live sf). fl_le x y"
    by (elim exE conjE) blast
  have kw: "kw = []" using 1 by simp
  have s0: "s0' = s0" using 2 i0 unfolding kw by simp
  have d: "d = [Fin 3, Fin 3]" using 4 v(2) by simp
  have it2: "iterate_body ?env ?self False False [] (Fin 1) 2 (Suc (Suc 0)) s0 = Inr sf"
    using 3 unfolding kw s0 v(1) by (simp only: numeral_2_eq_2)
  have "(0::nat) < num_dead sf" unfolding v(1) by simp
  from 5[OF this] i1 have r0: "replaces_minimum (log_L_live s0) (log_L_live s1) (d ! 0)"
    unfolding kw s0 by auto
  have "Suc 0 < num_dead sf" unfolding v(1) by simp
  from 5[OF this] i1 it2 have r1: "replaces_minimum (log_L_live s1) (log_L_live sf) (d ! 1)"
    unfolding kw s0 by auto
  have it2': "iterate_body ?env ?self False False [] (Fin 1) 2 2 s0 = Inr sf"
    using it2 by (simp only: numeral_2_eq_2)
  have i1': "iterate_body ?env ?self False False [] (Fin 1) 2 1 s0 = Inr s1"
    using i1 by simp
  have "final_state ?env ?self 0 2 2 False (Fin 1) False None = Inr sf
       \<and> initial_state ?env ?self 0 2 2 False False [] = Inr s0
       \<and> iterate_body ?env ?self False False [] (Fin 1) 2 1 s0 = Inr s1
       \<and> iterate_body ?env ?self False False [] (Fin 1) 2 2 s0 = Inr sf
       \<and> log_L_live s0 = [Fin 3, Fin 3] \<and> log_L_live s1 = [Fin 4, Fin 3]
       \<and> log_L_live sf = [Fin 4, Fin 4]
       \<and> num_dead sf = 2 \<and> log_L_dead sf = Some d \<and> d = [Fin 3, Fin 3]
       \<and> replaces_minimum (log_L_live s0) (log_L_live s1) (d ! 0)
       \<and> replaces_minimum (log_L_live s1) (log_L_live sf) (d ! 1)
       \<and> sorted_wrt fl_le (take (num_dead sf) d)
       \<and> (\<forall>x\<in>set (take (num_dead sf) d). \<forall>y\<in>set (log_L_live sf). fl_le x y)"
    using fs i0 i1' it2' l v(3) v(1) 4 d r0 r1 6 7 by (intro conjI)
  then have "\<exists>sf s0 s1 d.
         final_state ?env ?self 0 2 2 False (Fin 1) False None = Inr sf
       \<and> initial_state ?env ?self 0 2 2 False False [] = Inr s0
       \<and> iterate_body ?env ?self False False [] (Fin 1) 2 1 s0 = Inr s1
       \<and> iterate_body ?env ?self False False [] (Fin 1) 2 2 s0 = Inr sf
       \<and> log_L_live s0 = [Fin 3, Fin 3] \<and> log_L_live s1 = [Fin 4, Fin 3]
       \<and> log_L_live sf = [Fin 4, Fin 4]
       \<and> num_dead sf = 2 \<and> log_L_dead sf = Some d \<and> d = [Fin 3, Fin 3]
       \<and> replaces_minimum (log_L_live s0) (log_L_live s1) (d ! 0)
       \<and> replaces_minimum (log_L_live s1) (log_L_live sf) (d ! 1)
       \<and> sorted_wrt fl_le (take (num_dead sf) d)
       \<and> (\<forall>x\<in>set (take (num_dead sf) d). \<forall>y\<in>set (log_L_live sf). fl_le x y)"
    by (intro exI)
  with honest_sampler_contract[of null_evidence] show ?thesis by (rule conjI)
qed

section \<open>Normalisation of the importance weights\<close>

lemma fl_add_Fin_iff:
  "fl_add a b = Fin s \<longleftrightarrow> (\<exists>x y. a = Fin x \<and> b = Fin y \<and> s = x + y)"
  by (cases a; cases b) auto

lemma exp_shift_Fin_iff:
  "fl_exp (fl_sub a (Fin m)) = Fin x \<longleftrightarrow> proper_weight a \<and> x = lin_weight a * exp (- m)"
  by (cases a) (auto simp: fl_sub_def exp_minus exp_diff divide_inverse)

lemma shifted_sum_Fin_iff:
  "fl_sum (map (\<lambda>x. fl_exp (fl_sub x (Fin m))) w) = Fin s
     \<longleftrightarrow> (\<forall>x\<in>set w. proper_weight x) \<and> s = lin_sum w * exp (- m)"
proof (induction w arbitrary: s)
  case Nil
  then show ?case by (auto simp: fl_sum_def lin_sum_def)
next
  case (Cons a w)
  have IH: "fl_sum (map (\<lambda>x. fl_exp (fl_sub x (Fin m))) w) = Fin y
     \<longleftrightarrow> (\<forall>x\<in>set w. proper_weight x) \<and> y = lin_sum w * exp (- m)" for y
    using Cons.IH .
  have u: "fl_sum (map (\<lambda>x. fl_exp (fl_sub x (Fin m))) (a # w))
      = fl_add (fl_exp (fl_sub a (Fin m))) (fl_sum (map (\<lambda>x. fl_exp (fl_sub x (Fin m))) w))"
    by (simp add: fl_sum_def)
  have l: "lin_sum (a # w) = lin_weight a + lin_sum w" by (simp add: lin_sum_def)
  show ?case
    unfolding u fl_add_Fin_iff exp_shift_Fin_iff IH l
    by (auto simp: algebra_simps)
qed

lemma fl_log_Fin_iff: "fl_log S = Fin y \<longleftrightarrow> (\<exists>s. S = Fin s \<and> 0 < s \<and> y = ln s)"
  by (cases S) auto

lemma logsumexp_shift:
  "\<exists>m. logsumexp w = fl_add (fl_log (fl_sum (map (\<lambda>x. fl_exp (fl_sub x (Fin m))) w))) (Fin m)"
proof (cases "fl_max_list w")
  case (Fin m)
  then show ?thesis by (auto simp: logsumexp_def Let_def)
qed (auto simp: logsumexp_def Let_def)

lemma logsumexp_Fin_iff:
  "logsumexp w = Fin l \<longleftrightarrow> (\<forall>x\<in>set w. proper_weight x) \<and> 0 < lin_sum w \<and> l = ln (lin_sum w)"
proof -
  obtain m where m: "logsumexp w
      = fl_add (fl_log (fl_sum (map (\<lambda>x. fl_exp (fl_sub x (Fin m))) w))) (Fin m)"
    using logsumexp_shift by blast
  have pos: "0 < lin_sum w * exp (- m) \<longleftrightarrow> 0 < lin_sum w"
    by (simp add: zero_less_mult_iff)
  have lg: "0 < lin_sum w \<Longrightarrow> ln (lin_sum w * exp (- m)) = ln (lin_sum w) - m"
    by (simp add: ln_mult)
  show ?thesis
    unfolding m fl_add_Fin_iff fl_log_Fin_iff shifted_sum_Fin_iff
    using pos lg by auto
qed

lemma lin_sum_shift:
  assumes "\<forall>x\<in>set w. proper_weight x"
  shows "(\<forall>x\<in>set (map (\<lambda>x. fl_sub x (Fin l)) w). proper_weight x)
       \<and> lin_sum (map (\<lambda>x. fl_sub x (Fin l)) w) = lin_sum w * exp (- l)"
  using assms
proof (induction w)
  case Nil
  then show ?case by (simp add: lin_sum_def)
next
  case (Cons a w)
  have a: "proper_weight (fl_sub a (Fin l)) \<and> lin_weight (fl_sub a (Fin l)) = lin_weight a * exp (- l)"
    using Cons.prems by (cases a) (auto simp: fl_sub_def exp_diff exp_minus divide_inverse)
  from Cons have ih: "(\<forall>x\<in>set (map (\<lambda>x. fl_sub x (Fin l)) w). proper_weight x)
       \<and> lin_sum (map (\<lambda>x. fl_sub x (Fin l)) w) = lin_sum w * exp (- l)" by simp
  show ?case using a ih by (simp add: lin_sum_def algebra_simps)
qed

lemma logsumexp_normalised:
  assumes "isfinite (logsumexp w)"
  shows "logsumexp (map (\<lambda>x. fl_sub x (logsumexp w)) w) = Fin 0
       \<and> lin_sum (map (\<lambda>x. fl_sub x (logsumexp w)) w) = 1"
proof -
  from assms obtain l where l: "logsumexp w = Fin l" by (cases "logsumexp w") auto
  then have pw: "\<forall>x\<in>set w. proper_weight x" and pos: "0 < lin_sum w" and le: "l = ln (lin_sum w)"
    unfolding logsumexp_Fin_iff by simp_all
  from lin_sum_shift[OF pw, of l]
  have pp: "\<forall>x\<in>set (map (\<lambda>x. fl_sub x (Fin l)) w). proper_weight x"
    and ls: "lin_sum (map (\<lambda>x. fl_sub x (Fin l)) w) = lin_sum w * exp (- l)"
    by simp_all
  have one: "lin_sum w * exp (- l) = 1"
    using pos by (simp add: le exp_minus)
  have "logsumexp (map (\<lambda>x. fl_sub x (Fin l)) w) = Fin 0"
    unfolding logsumexp_Fin_iff using pp ls one by simp
  then show ?thesis using ls one by (simp add: l)
qed

lemmas finalise_defs = NestedSampler_call_def finalise_results_def finalise_buffers_def
  logsumexp_log_p_def assembled_log_w_def

text \<open>
  C10, as stated, fails: with a likelihood that is \<open>+inf\<close> at one point, which the
  wrapped likelihood lets through, and a sampler that returns that point with the wrapped
  likelihood's value there, the run returns, the assembled log-weights hold \<open>+inf\<close>, and
  \<open>log_p = log_w - logsumexp(log_w)\<close> is NaN: its log-sum-exp is NaN and not 0.
\<close>

theorem log_p_not_normalised_counterexample:
  "logsumexp_log_p
     (NestedSampler_call (honest_env null_evidence) (tophat_obj (Fin 0) PosInf)
        0 1 1 False (Fin 1) False None) = Some NaN"
  by (subst while_loop.simps
      | simp add: eval_defs example_defs finalise_defs honest_defs)+

lemma finalise_buffers_log_p:
  assumes "finalise_buffers s ms live_L live_X live_w = Inr (n, p, X, L, e)"
  shows "\<exists>b w. log_w s = Some b \<and> dynamic_update_slice b live_w (num_dead s) = Inr w
           \<and> p = map (\<lambda>x. fl_sub x (logsumexp w)) w"
  using assms
  apply (simp only: finalise_buffers_def ebind_Inr_iff Let_def)
  apply (elim exE conjE)
  apply (simp add: buffer_def of_option_def split: option.splits)
  done


lemma finalise_results_log_p:
  assumes "finalise_results env self s cs False ms = Inr res"
  shows "\<exists>w. assembled_log_w env self s = Inr w
           \<and> log_p res = Some (map (\<lambda>x. fl_sub x (logsumexp w)) w)"
proof -
  obtain ts live_L live_X live_w where
    u: "te_update_from_live_points
          (new_TrackedExpectation env (marginalised self) (marginalised_shapes self))
          (tracked_expectations_state s) (live_points s) (log_L_live s)
        = (ts, live_L, live_X, live_w)"
    by (rule prod_cases4)
  from assms obtain n p X L e where
    fb: "finalise_buffers s ms live_L live_X live_w = Inr (n, p, X, L, e)"
    and lp: "log_p res = Some p"
    apply (simp only: finalise_results_def Let_def u prod.case not_False_eq_True if_True
        ebind_Inr_iff split_paired_Ex)
    apply (elim exE conjE)
    apply (simp only: sum.inject prod.inject)
    apply (elim conjE)
    apply (drule sym[of _ res])
    apply simp
    done
  from finalise_buffers_log_p[OF fb] obtain b w where
    b: "log_w s = Some b" and w: "dynamic_update_slice b live_w (num_dead s) = Inr w"
    and p: "p = map (\<lambda>x. fl_sub x (logsumexp w)) w"
    by blast
  have "assembled_log_w env self s = Inr w"
    by (simp add: assembled_log_w_def Let_def u b w buffer_def of_option_def)
  with lp p show ?thesis by simp
qed


text \<open>
  C10, amended: for a run with \<open>only_marginalise = False\<close> that returns, \<open>log_p\<close> is
  the assembled \<open>log_w\<close> minus its log-sum-exp; whenever that log-sum-exp is finite
  (no weight is \<open>+inf\<close> or NaN and one is finite), the log-sum-exp of \<open>log_p\<close> is 0
  and its weights in linear space sum to one.  Finite floats are the reals they denote,
  so this is the normalisation up to rounding.
\<close>

theorem log_p_normalised_when_finite:
  assumes "final_state env self key0 N ms cs tf False kwo = Inr sf"
    and "NestedSampler_call env self key0 N ms cs tf False kwo = Inr res"
    and "assembled_log_w env self sf = Inr w"
    and "isfinite (logsumexp w)"
  shows "log_p res = Some (map (\<lambda>x. fl_sub x (logsumexp w)) w)
       \<and> logsumexp_log_p (Inr res) = Some (Fin 0)
       \<and> lin_sum (map (\<lambda>x. fl_sub x (logsumexp w)) w) = 1"
proof -
  have "finalise_results env self sf cs False ms = Inr res"
    using assms(2) by (simp add: NestedSampler_call_def assms(1))
  from finalise_results_log_p[OF this] assms(3)
  have lp: "log_p res = Some (map (\<lambda>x. fl_sub x (logsumexp w)) w)" by simp
  from logsumexp_normalised[OF assms(4)] lp show ?thesis
    by (simp add: logsumexp_log_p_def)
qed

lemma tophat_run_results:
  "\<exists>sf res. final_state (honest_env late_evidence) (tophat_obj (Fin 0) (Fin 1))
          0 2 4 False (Fin 1) False None = Inr sf
      \<and> NestedSampler_call (honest_env late_evidence) (tophat_obj (Fin 0) (Fin 1))
          0 2 4 False (Fin 1) False None = Inr res
      \<and> assembled_log_w (honest_env late_evidence) (tophat_obj (Fin 0) (Fin 1)) sf
          = Inr [Fin (- 1), Fin (- 2), Fin (- 1), Fin (- 1)]"
  by (subst while_loop.simps
      | simp add: eval_defs example_defs finalise_defs honest_defs one_plus_exp_simps)+

theorem log_p_normalised_when_finite_witness:
  "\<exists>res. NestedSampler_call (honest_env late_evidence) (tophat_obj (Fin 0) (Fin 1))
          0 2 4 False (Fin 1) False None = Inr res
      \<and> isfinite (logsumexp [Fin (- 1), Fin (- 2), Fin (- 1), Fin (- 1)])
      \<and> log_p res = Some (map (\<lambda>x. fl_sub x (logsumexp [Fin (- 1), Fin (- 2), Fin (- 1), Fin (- 1)]))
                              [Fin (- 1), Fin (- 2), Fin (- 1), Fin (- 1)])
      \<and> logsumexp_log_p (Inr res) = Some (Fin 0)
      \<and> lin_sum (map (\<lambda>x. fl_sub x (logsumexp [Fin (- 1), Fin (- 2), Fin (- 1), Fin (- 1)]))
                              [Fin (- 1), Fin (- 2), Fin (- 1), Fin (- 1)]) = 1"
proof -
  let ?w = "[Fin (- 1), Fin (- 2), Fin (- 1), Fin (- 1)]"
  from tophat_run_results obtain sf res where
    fs: "final_state (honest_env late_evidence) (tophat_obj (Fin 0) (Fin 1))
          0 2 4 False (Fin 1) False None = Inr sf"
    and rs: "NestedSampler_call (honest_env late_evidence) (tophat_obj (Fin 0) (Fin 1))
          0 2 4 False (Fin 1) False None = Inr res"
    and w: "assembled_log_w (honest_env late_evidence) (tophat_obj (Fin 0) (Fin 1)) sf
          = Inr ?w"
    by blast
  have "0 < lin_sum ?w" by (simp add: lin_sum_def add_pos_pos)
  then have "logsumexp ?w = Fin (ln (lin_sum ?w))"
    unfolding logsumexp_Fin_iff by simp
  then have f: "isfinite (logsumexp ?w)" by simp
  from log_p_normalised_when_finite[OF fs rs w f] rs f show ?thesis by blast
qed

section \<open>The live set in a run\<close>

lemma stack_samples_rows:
  assumes "stack_samples ss = Inr lp"
  shows "\<forall>kx\<in>set lp. length (snd kx) = length ss"
proof (cases ss)
  case Nil
  with assms show ?thesis by simp
next
  case (Cons s ss')
  with assms have "list_all2 (\<lambda>m x. m = Inr x)
      (map (\<lambda>(k, v).
               ebind (sequence_err (map (\<lambda>s'. of_option (KeyError k) (map_of s' k)) ss'))
                 (\<lambda>rows. Inr (k, v # rows))) s) lp"
    by (simp add: sequence_err_Inr)
  then have la: "list_all2 (\<lambda>kv x. (case kv of (k, v) \<Rightarrow>
               ebind (sequence_err (map (\<lambda>s'. of_option (KeyError k) (map_of s' k)) ss'))
                 (\<lambda>rows. Inr (k, v # rows))) = Inr x) s lp"
    by (simp add: list_all2_map1)
  show ?thesis
  proof
    fix kx assume "kx \<in> set lp"
    then obtain i where i: "i < length lp" "lp ! i = kx" by (auto simp: in_set_conv_nth)
    with la have h: "(case s ! i of (k, v) \<Rightarrow>
               ebind (sequence_err (map (\<lambda>s'. of_option (KeyError k) (map_of s' k)) ss'))
                 (\<lambda>rows. Inr (k, v # rows))) = Inr kx"
      by (auto simp: list_all2_conv_all_nth)
    obtain k v where kv: "s ! i = (k, v)" by (cases "s ! i")
    from h obtain rows where
      r: "sequence_err (map (\<lambda>s'. of_option (KeyError k) (map_of s' k)) ss') = Inr rows"
      and kx: "kx = (k, v # rows)"
      unfolding kv prod.case ebind_Inr_iff by auto
    from sequence_err_Inr[OF r] have "length rows = length ss'"
      by (auto dest: list_all2_lengthD)
    with kx Cons show "length (snd kx) = length ss" by simp
  qed
qed

lemma initial_live_inv:
  assumes "initial_state env self key0 N ms cs om kw = Inr s0"
    and "loglikelihood self = fixed_likelihood loglik"
  shows "live_wf s0 \<and> (\<forall>y\<in>set (log_L_live s0). \<not> isnan y)"
proof -
  from initial_state_Inr[OF assms(1)] show ?thesis
  proof (elim exE conjE)
    fix key1 init_key rs lp dp Ld se lX lw key2 ss
    assume seq: "sequence_err (map (single_sample env self) (random_split env init_key N)) = Inr rs"
      and st: "stack_samples (map (\<lambda>r. fst (snd r)) rs) = Inr lp"
      and s0: "s0 = \<lparr>key = key2,
          is_done = False,
          iter_i = 0,
          num_likelihood_evaluations = N,
          live_points_U = map fst rs,
          live_points = lp,
          log_L_live = map (\<lambda>r. snd (snd r)) rs,
          dead_points = dp,
          log_X = lX,
          log_w = lw,
          num_dead = 0,
          log_L_dead = Ld,
          sampler_efficiency = se,
          status = 0,
          sampler_state = ss,
          tracked_expectations_state =
            te_state (new_TrackedExpectation env (marginalised self) (marginalised_shapes self))\<rparr>"
    have nn: "\<forall>y\<in>set (map (\<lambda>r. snd (snd r)) rs). \<not> isnan y"
      using single_samples_not_nan[OF seq assms(2)] .
    have rows: "\<forall>kx\<in>set lp. length (snd kx) = length rs"
      using stack_samples_rows[OF st] by simp
    show ?thesis
      unfolding live_wf_def using nn rows by (simp add: s0)
  qed
qed

lemma body_live_inv:
  assumes b: "body env self cs om kw tf ms s = Inr s'"
    and wf: "live_wf s" and nn: "\<forall>y\<in>set (log_L_live s). \<not> isnan y"
    and sc: "sampler_contract env"
  shows "live_wf s' \<and> (\<forall>y\<in>set (log_L_live s'). \<not> isnan y)
       \<and> length (log_L_live s') = length (log_L_live s)"
proof -
  from body_Inr[OF b] obtain s1 where
    s1: "one_step env self s cs om kw = Inr s1"
    and s': "s' = s1\<lparr>is_done := (fl_lt (logZ_live env self s1)
                  (fl_add (fl_log tf) (evidence_mean env self s1))
                \<or> ms \<le> int (iter_i s1 + 1)), iter_i := iter_i s1 + 1\<rparr>"
    by blast
  from one_step_live_update[OF s1 wf nn] obtain i_min s0 X r where
    call: "call_sampler env self s0 kw (log_L_live s ! i_min) i_min X = Inr r"
    and L: "log_L_live s1 = (log_L_live s)[i_min := log_L_new r]"
    and wf1: "live_wf s1"
    by (elim exE conjE)
  have "\<not> isnan (log_L_new r)"
    using call_sampler_contract[OF sc call] fl_lt_not_nan by blast
  then have nn1: "\<forall>y\<in>set (log_L_live s1). \<not> isnan y"
    unfolding L using nn set_update_subset_insert by fastforce
  have e: "log_L_live s' = log_L_live s1" "live_points s' = live_points s1"
    "live_points_U s' = live_points_U s1"
    by (simp_all add: s')
  have "live_wf s'" using wf1 unfolding live_wf_def e .
  then show ?thesis using nn1 L by (simp add: e)
qed

lemma iterate_body_live_inv:
  assumes "iterate_body env self cs om kw tf ms n s = Inr sn"
    and "live_wf s" and "\<forall>y\<in>set (log_L_live s). \<not> isnan y"
    and "sampler_contract env"
  shows "live_wf sn \<and> (\<forall>y\<in>set (log_L_live sn). \<not> isnan y)
       \<and> length (log_L_live sn) = length (log_L_live s)"
  using assms
proof (induction n arbitrary: s)
  case 0
  then show ?case by simp
next
  case (Suc n)
  from Suc.prems(1) obtain s' where b: "body env self cs om kw tf ms s = Inr s'"
    and it: "iterate_body env self cs om kw tf ms n s' = Inr sn"
    by (rule iterate_body_Suc_Inr)
  from body_live_inv[OF b Suc.prems(2,3,4)]
  have wf: "live_wf s'" and nn: "\<forall>y\<in>set (log_L_live s'). \<not> isnan y"
    and len: "length (log_L_live s') = length (log_L_live s)"
    by simp_all
  from Suc.IH[OF it wf nn Suc.prems(4)] len show ?case by simp
qed

text \<open>
  The hypotheses on the state hold in every state of a run: after any number of steps
  from the initial state the live set is indexed in parallel, holds no NaN and has as
  many entries as at the start.
\<close>

lemma run_live_inv:
  assumes "NestedSampler_init loglik pc sname marg = Inr self"
    and "sampler_contract env"
    and "initial_state env self key0 N ms cs om kw = Inr s0"
    and "iterate_body env self cs om kw tf ms n s0 = Inr sn"
  shows "live_wf sn \<and> (\<forall>y\<in>set (log_L_live sn). \<not> isnan y)
       \<and> length (log_L_live sn) = length (log_L_live s0)"
proof -
  from initial_live_inv[OF assms(3) NestedSampler_init_loglikelihood[OF assms(1)]]
  have "live_wf s0" "\<forall>y\<in>set (log_L_live s0). \<not> isnan y" by simp_all
  with assms(4) show ?thesis using assms(2) by (rule iterate_body_live_inv)
qed

end
